theory Spec2Isabelle
  imports Main
begin

section \<open>Python values\<close>

text \<open>
  A Python \<open>str\<close> is a sequence of Unicode code points, and \<open>len\<close> and slicing count
  code points; it is modelled as a list of naturals. \<open>ascii\<close> writes an ASCII literal.
  A \<open>bytes\<close> object is a list of naturals below 256.
\<close>

type_synonym pystr = "nat list"

definition ascii :: "string \<Rightarrow> pystr" where
  "ascii s = map of_char s"

text \<open>
  The values \<open>response.json()\<close> hands to the program: \<open>None\<close>, booleans, integers,
  strings, lists and dicts. A dict is an association list; \<open>map_of\<close> looks a key up.
  Non-integer JSON numbers (Python floats) are outside the model.
\<close>

datatype json =
    JNull
  | JBool bool
  | JInt int
  | JStr pystr
  | JArr "json list"
  | JObj "(pystr \<times> json) list"

text \<open>
  The exceptions the modelled code can raise. \<open>TimestampRangeError\<close> stands for the
  exception of \<open>datetime.fromtimestamp\<close> on a time outside the years 1 to 9999
  (a ValueError, OverflowError or OSError, depending on the platform).
\<close>

datatype error =
    AttributeError
  | TypeError
  | ValueError
  | KeyError
  | TimestampRangeError
  | HTTPStatusError nat
  | TransportError
  | JSONDecodeError

text \<open>\<open>d.get(key, default)\<close> on a dict.\<close>

definition dict_get :: "(pystr \<times> json) list \<Rightarrow> pystr \<Rightarrow> json \<Rightarrow> json" where
  "dict_get d k dflt = (case map_of d k of None \<Rightarrow> dflt | Some v \<Rightarrow> v)"

text \<open>
  \<open>v.get(key, default)\<close> on any value: only a dict has the method, every other value
  raises AttributeError.
\<close>

fun py_get :: "json \<Rightarrow> pystr \<Rightarrow> json \<Rightarrow> error + json" where
  "py_get (JObj d) k dflt = Inr (dict_get d k dflt)"
| "py_get _ k dflt = Inl AttributeError"

text \<open>Truth value of a value, as \<open>if v:\<close> and \<open>not v\<close> test it.\<close>

fun truthy :: "json \<Rightarrow> bool" where
  "truthy JNull = False"
| "truthy (JBool b) = b"
| "truthy (JInt n) = (n \<noteq> 0)"
| "truthy (JStr s) = (s \<noteq> [])"
| "truthy (JArr xs) = (xs \<noteq> [])"
| "truthy (JObj d) = (d \<noteq> [])"

text \<open>
  The elements a \<open>for\<close> loop sees: the items of a list, the keys of a dict, the
  one-character strings of a str; anything else is not iterable (TypeError).
\<close>

fun py_iter :: "json \<Rightarrow> error + json list" where
  "py_iter (JArr xs) = Inr xs"
| "py_iter (JObj d) = Inr (map (\<lambda>kv. JStr (fst kv)) d)"
| "py_iter (JStr s) = Inr (map (\<lambda>c. JStr [c]) s)"
| "py_iter _ = Inl TypeError"

text \<open>\<open>sep.join(xs)\<close> on a list of strings.\<close>

fun join :: "pystr \<Rightarrow> pystr list \<Rightarrow> pystr" where
  "join sep [] = []"
| "join sep [x] = x"
| "join sep (x # y # ys) = x @ sep @ join sep (y # ys)"

text \<open>\<open>needle in hay\<close> on two strings: \<open>needle\<close> occurs as a contiguous run.\<close>

fun is_prefix :: "pystr \<Rightarrow> pystr \<Rightarrow> bool" where
  "is_prefix [] ys = True"
| "is_prefix (x # xs) [] = False"
| "is_prefix (x # xs) (y # ys) = (x = y \<and> is_prefix xs ys)"

fun is_substring :: "pystr \<Rightarrow> pystr \<Rightarrow> bool" where
  "is_substring needle [] = (needle = [])"
| "is_substring needle (y # ys) = (is_prefix needle (y # ys) \<or> is_substring needle ys)"

section \<open>The platform\<close>

text \<open>
  What the code takes from its environment rather than from its input:
  \<^item> \<open>tz_offset t\<close>: the offset in seconds of local time from UTC at the epoch second \<open>t\<close>
    (\<open>datetime.fromtimestamp\<close> without a time zone converts to local time);
  \<^item> \<open>unicode_lower\<close>: \<open>str.lower()\<close> on a string that has a code point beyond ASCII
    (the Unicode case tables);
  \<^item> \<open>unicode_int\<close>: \<open>int()\<close> on a string that has a code point beyond ASCII
    (Unicode decimal digits and spaces); \<open>None\<close> is ValueError;
  \<^item> \<open>max_str_digits\<close>: the interpreter's limit on the digits of a decimal string that
    \<open>int()\<close> converts (4300 by default in current CPython; 0 is no limit);
  \<^item> \<open>pad_year\<close>: whether \<open>strftime\<close> pads \<open>%Y\<close> with zeros to four digits for a year
    below 1000.
\<close>

record platform =
  tz_offset :: "int \<Rightarrow> int"
  unicode_lower :: "pystr \<Rightarrow> pystr"
  unicode_int :: "pystr \<Rightarrow> int option"
  max_str_digits :: nat
  pad_year :: bool

definition is_ascii :: "pystr \<Rightarrow> bool" where
  "is_ascii s = list_all (\<lambda>c. c < 128) s"

subsection \<open>str.lower\<close>

definition ascii_lower :: "nat \<Rightarrow> nat" where
  "ascii_lower c = (if 65 \<le> c \<and> c \<le> 90 then c + 32 else c)"

definition lower :: "platform \<Rightarrow> pystr \<Rightarrow> pystr" where
  "lower P s = (if is_ascii s then map ascii_lower s else unicode_lower P s)"

text \<open>\<open>v.lower()\<close> on any value: only a str has the method.\<close>

fun py_lower :: "platform \<Rightarrow> json \<Rightarrow> error + pystr" where
  "py_lower P (JStr s) = Inr (lower P s)"
| "py_lower P _ = Inl AttributeError"

section \<open>Base64 and UTF-8\<close>

text \<open>
  \<open>base64.urlsafe_b64decode(s)\<close> of the standard library, on a str: the string is
  encoded to ASCII (ValueError on a code point beyond ASCII), \<open>-\<close> is translated to
  \<open>+\<close> and \<open>_\<close> to \<open>/\<close>, and \<open>binascii.a2b_base64\<close> decodes it in its lenient mode.
  \<open>b64_value\<close> is its table \<open>table_a2b_base64\<close>: the index of a character of the
  standard alphabet, \<open>None\<close> for every other character.
\<close>

definition b64_value :: "nat \<Rightarrow> nat option" where
  "b64_value c =
     (if 65 \<le> c \<and> c \<le> 90 then Some (c - 65)
      else if 97 \<le> c \<and> c \<le> 122 then Some (c - 71)
      else if 48 \<le> c \<and> c \<le> 57 then Some (c + 4)
      else if c = 43 then Some 62
      else if c = 47 then Some 63
      else None)"

text \<open>
  The decoding loop of \<open>a2b_base64\<close>: \<open>quad_pos\<close> is the position in the current group
  of four characters, \<open>leftchar\<close> the bits left over from the last character, \<open>pads\<close> the
  padding characters seen since the last data character. A character outside the
  alphabet is skipped. A \<open>=\<close> is skipped unless it completes a group that has at least
  two data characters, where it ends the decoding. At the end of the input an open group
  is an error (\<open>None\<close>). The shifts and ORs of the C code combine disjoint bit fields, so
  they are written as products and sums; the result is stored in a byte.
\<close>

fun a2b_loop :: "nat list \<Rightarrow> nat \<Rightarrow> nat \<Rightarrow> nat \<Rightarrow> nat list \<Rightarrow> nat list option" where
  "a2b_loop [] quad_pos leftchar pads out = (if quad_pos \<noteq> 0 then None else Some out)"
| "a2b_loop (c # cs) quad_pos leftchar pads out =
     (if c = 61 then
        (if 2 \<le> quad_pos then
           (if 4 \<le> quad_pos + (pads + 1) then Some out
            else a2b_loop cs quad_pos leftchar (pads + 1) out)
         else a2b_loop cs quad_pos leftchar pads out)
      else
        (case b64_value c of
           None \<Rightarrow> a2b_loop cs quad_pos leftchar pads out
         | Some v \<Rightarrow>
             (if quad_pos = 0 then a2b_loop cs 1 v 0 out
              else if quad_pos = 1 then
                a2b_loop cs 2 (v mod 16) 0 (out @ [(leftchar * 4 + v div 16) mod 256])
              else if quad_pos = 2 then
                a2b_loop cs 3 (v mod 4) 0 (out @ [(leftchar * 16 + v div 4) mod 256])
              else a2b_loop cs 0 0 0 (out @ [(leftchar * 64 + v) mod 256]))))"

definition a2b_base64 :: "nat list \<Rightarrow> nat list option" where
  "a2b_base64 s = a2b_loop s 0 0 0 []"

definition urlsafe_translate :: "nat \<Rightarrow> nat" where
  "urlsafe_translate c = (if c = 45 then 43 else if c = 95 then 47 else c)"

definition urlsafe_b64decode :: "pystr \<Rightarrow> nat list option" where
  "urlsafe_b64decode s =
     (if is_ascii s then a2b_base64 (map urlsafe_translate s) else None)"

text \<open>
  \<open>bytes.decode('utf-8')\<close>: the strict decoder. It accepts exactly the well-formed
  byte sequences of the Unicode standard (no overlong form, no surrogate, nothing above
  U+10FFFF) and raises UnicodeDecodeError (\<open>None\<close>) on any other input.
\<close>

definition is_cont :: "nat \<Rightarrow> bool" where
  "is_cont b = (128 \<le> b \<and> b \<le> 191)"

fun utf8_decode :: "nat list \<Rightarrow> pystr option" where
  "utf8_decode [] = Some []"
| "utf8_decode (b0 # bs) =
     (if b0 < 128 then map_option ((#) b0) (utf8_decode bs)
      else if 194 \<le> b0 \<and> b0 \<le> 223 then
        (case bs of
           b1 # r \<Rightarrow>
             if is_cont b1
             then map_option ((#) ((b0 - 192) * 64 + (b1 - 128))) (utf8_decode r)
             else None
         | _ \<Rightarrow> None)
      else if 224 \<le> b0 \<and> b0 \<le> 239 then
        (case bs of
           b1 # b2 # r \<Rightarrow>
             if (if b0 = 224 then 160 else 128) \<le> b1 \<and> b1 \<le> (if b0 = 237 then 159 else 191)
                \<and> is_cont b2
             then map_option ((#) ((b0 - 224) * 4096 + (b1 - 128) * 64 + (b2 - 128)))
                    (utf8_decode r)
             else None
         | _ \<Rightarrow> None)
      else if 240 \<le> b0 \<and> b0 \<le> 244 then
        (case bs of
           b1 # b2 # b3 # r \<Rightarrow>
             if (if b0 = 240 then 144 else 128) \<le> b1 \<and> b1 \<le> (if b0 = 244 then 143 else 191)
                \<and> is_cont b2 \<and> is_cont b3
             then map_option
                    ((#) ((b0 - 240) * 262144 + (b1 - 128) * 4096 + (b2 - 128) * 64 + (b3 - 128)))
                    (utf8_decode r)
             else None
         | _ \<Rightarrow> None)
      else None)"

section \<open>The message normalizer\<close>

subsection \<open>get_header_value\<close>

text \<open>
  The loop of \<open>get_header_value\<close> over the elements of \<open>headers\<close>: the first header whose
  lower-cased name equals the lower-cased \<open>name\<close> decides, with its \<open>value\<close> (the empty
  string when it has none); the empty string when the loop ends.
\<close>

fun header_loop :: "platform \<Rightarrow> json list \<Rightarrow> pystr \<Rightarrow> error + json" where
  "header_loop P [] name = Inr (JStr [])"
| "header_loop P (header # rest) name =
     (case py_get header (ascii ''name'') (JStr []) of
        Inl e \<Rightarrow> Inl e
      | Inr n \<Rightarrow>
          (case py_lower P n of
             Inl e \<Rightarrow> Inl e
           | Inr l \<Rightarrow>
               if l = lower P name then py_get header (ascii ''value'') (JStr [])
               else header_loop P rest name))"

definition get_header_value :: "platform \<Rightarrow> json \<Rightarrow> pystr \<Rightarrow> error + json" where
  "get_header_value P headers name =
     (case py_iter headers of Inl e \<Rightarrow> Inl e | Inr hs \<Rightarrow> header_loop P hs name)"

subsection \<open>extract_text_from_payload\<close>

text \<open>
  The body of the two \<open>try\<close> blocks:
  \<open>base64.urlsafe_b64decode(body_data + "===").decode('utf-8')\<close>. The bare \<open>except\<close>
  catches every exception, also the TypeError of \<open>+\<close> on a value that is not a str, so the
  result is the decoded text or nothing.
\<close>

fun decode_body :: "json \<Rightarrow> pystr option" where
  "decode_body (JStr s) =
     (case urlsafe_b64decode (s @ ascii ''==='') of
        None \<Rightarrow> None
      | Some bs \<Rightarrow> utf8_decode bs)"
| "decode_body _ = None"

text \<open>The loop over \<open>payload["parts"]\<close>, with the list \<open>text_parts\<close> it appends to.\<close>

fun parts_loop :: "json list \<Rightarrow> pystr list \<Rightarrow> error + pystr list" where
  "parts_loop [] text_parts = Inr text_parts"
| "parts_loop (part # rest) text_parts =
     (case py_get part (ascii ''mimeType'') JNull of
        Inl e \<Rightarrow> Inl e
      | Inr mime \<Rightarrow>
          if mime = JStr (ascii ''text/plain'') then
            (case py_get part (ascii ''body'') (JObj []) of
               Inl e \<Rightarrow> Inl e
             | Inr body \<Rightarrow>
                 (case py_get body (ascii ''data'') (JStr []) of
                    Inl e \<Rightarrow> Inl e
                  | Inr body_data \<Rightarrow>
                      if truthy body_data then
                        (case decode_body body_data of
                           Some decoded \<Rightarrow> parts_loop rest (text_parts @ [decoded])
                         | None \<Rightarrow> parts_loop rest text_parts)
                      else parts_loop rest text_parts))
          else parts_loop rest text_parts)"

text \<open>\<open>"parts" in payload\<close>, for a payload that is not falsy.\<close>

fun has_parts :: "json \<Rightarrow> error + bool" where
  "has_parts (JObj d) = Inr (map_of d (ascii ''parts'') \<noteq> None)"
| "has_parts (JArr xs) = Inr (JStr (ascii ''parts'') \<in> set xs)"
| "has_parts (JStr s) = Inr (is_substring (ascii ''parts'') s)"
| "has_parts _ = Inl TypeError"

text \<open>\<open>payload["parts"]\<close>, once \<open>"parts" in payload\<close> holds.\<close>

fun get_parts :: "json \<Rightarrow> error + json" where
  "get_parts (JObj d) =
     (case map_of d (ascii ''parts'') of None \<Rightarrow> Inl KeyError | Some v \<Rightarrow> Inr v)"
| "get_parts _ = Inl TypeError"

text \<open>The multipart branch: the loop over the parts and the join of what it collected.\<close>

definition multipart_text :: "json \<Rightarrow> error + pystr" where
  "multipart_text payload =
     (case get_parts payload of
        Inl e \<Rightarrow> Inl e
      | Inr ps \<Rightarrow>
          (case py_iter ps of
             Inl e \<Rightarrow> Inl e
           | Inr parts \<Rightarrow>
               (case parts_loop parts [] of
                  Inl e \<Rightarrow> Inl e
                | Inr text_parts \<Rightarrow> Inr (join (ascii [CHR 0x0A]) text_parts))))"

text \<open>The simple-message branch, and the final \<open>return ""\<close> it falls through to.\<close>

definition simple_text :: "json \<Rightarrow> error + pystr" where
  "simple_text payload =
     (case py_get payload (ascii ''mimeType'') JNull of
        Inl e \<Rightarrow> Inl e
      | Inr mime \<Rightarrow>
          if mime = JStr (ascii ''text/plain'') then
            (case py_get payload (ascii ''body'') (JObj []) of
               Inl e \<Rightarrow> Inl e
             | Inr body \<Rightarrow>
                 (case py_get body (ascii ''data'') (JStr []) of
                    Inl e \<Rightarrow> Inl e
                  | Inr body_data \<Rightarrow>
                      if truthy body_data then
                        (case decode_body body_data of
                           Some decoded \<Rightarrow> Inr decoded
                         | None \<Rightarrow> Inr [])
                      else Inr []))
          else Inr [])"

definition extract_text_from_payload :: "json \<Rightarrow> error + pystr" where
  "extract_text_from_payload payload =
     (if \<not> truthy payload then Inr []
      else
        (case has_parts payload of
           Inl e \<Rightarrow> Inl e
         | Inr True \<Rightarrow> multipart_text payload
         | Inr False \<Rightarrow> simple_text payload))"

subsection \<open>The timestamp\<close>

text \<open>
  \<open>int(s)\<close> on an ASCII string, as CPython's \<open>PyLong_FromString\<close> reads it in base 10:
  white space around the number is dropped; a sign may come first; then decimal digits,
  where single underscores may stand between two digits. Anything else is ValueError
  (\<open>None\<close>), and so is a number of more digits than the interpreter's limit.
\<close>

definition is_space :: "nat \<Rightarrow> bool" where
  "is_space c = (c = 32 \<or> c = 9 \<or> c = 10 \<or> c = 11 \<or> c = 12 \<or> c = 13)"

definition strip :: "pystr \<Rightarrow> pystr" where
  "strip s = rev (dropWhile is_space (rev (dropWhile is_space s)))"

text \<open>
  The digits: \<open>prev\<close> says that the character before was a digit, \<open>acc\<close> is the value
  and \<open>n\<close> the number of digits read so far.
\<close>

fun scan_digits :: "pystr \<Rightarrow> bool \<Rightarrow> nat \<Rightarrow> nat \<Rightarrow> (nat \<times> nat) option" where
  "scan_digits [] prev acc n = (if prev then Some (acc, n) else None)"
| "scan_digits (c # cs) prev acc n =
     (if 48 \<le> c \<and> c \<le> 57 then scan_digits cs True (acc * 10 + (c - 48)) (n + 1)
      else if c = 95 \<and> prev then scan_digits cs False acc n
      else None)"

definition int_of_ascii :: "platform \<Rightarrow> pystr \<Rightarrow> int option" where
  "int_of_ascii P s =
     (let t = strip s;
          negative = (t \<noteq> [] \<and> hd t = 45);
          body = (if t \<noteq> [] \<and> (hd t = 43 \<or> hd t = 45) then tl t else t)
      in case scan_digits body False 0 0 of
           None \<Rightarrow> None
         | Some (v, n) \<Rightarrow>
             if 0 < max_str_digits P \<and> max_str_digits P < n then None
             else Some (if negative then - int v else int v))"

text \<open>\<open>int(v)\<close> on a value: a str is parsed, an int is itself, a bool is 0 or 1.\<close>

fun py_int :: "platform \<Rightarrow> json \<Rightarrow> error + int" where
  "py_int P (JStr s) =
     (case (if is_ascii s then int_of_ascii P s else unicode_int P s) of
        None \<Rightarrow> Inl ValueError
      | Some n \<Rightarrow> Inr n)"
| "py_int P (JInt n) = Inr n"
| "py_int P (JBool b) = Inr (if b then 1 else 0)"
| "py_int P _ = Inl TypeError"

text \<open>
  The calendar: CPython's \<open>ord_to_ymd\<close>, from the number \<open>n\<close> of days since 1 January
  of year 1 (proleptic Gregorian calendar) to year, month and day.
\<close>

definition is_leap :: "nat \<Rightarrow> bool" where
  "is_leap y = (y mod 4 = 0 \<and> (y mod 100 \<noteq> 0 \<or> y mod 400 = 0))"

definition days_before_month :: "nat \<Rightarrow> nat" where
  "days_before_month m = [0, 0, 31, 59, 90, 120, 151, 181, 212, 243, 273, 304, 334] ! m"

definition days_in_month :: "nat \<Rightarrow> nat \<Rightarrow> nat" where
  "days_in_month y m =
     (if m = 2 \<and> is_leap y then 29
      else [0, 31, 28, 31, 30, 31, 30, 31, 31, 30, 31, 30, 31] ! m)"

definition ord_to_ymd :: "nat \<Rightarrow> nat \<times> nat \<times> nat" where
  "ord_to_ymd ordinal0 =
     (let n400 = ordinal0 div 146097; r400 = ordinal0 mod 146097;
          n100 = r400 div 36524; r100 = r400 mod 36524;
          n4 = r100 div 1461; r4 = r100 mod 1461;
          n1 = r4 div 365; n = r4 mod 365;
          year = n400 * 400 + n100 * 100 + n4 * 4 + n1 + 1
      in if n1 = 4 \<or> n100 = 4 then (year - 1, 12, 31)
         else
           (let leapyear = (n1 = 3 \<and> (n4 \<noteq> 24 \<or> n100 = 3));
                month = (n + 50) div 32;
                preceding = days_before_month month + (if 2 < month \<and> leapyear then 1 else 0)
            in if n < preceding
               then (year, month - 1, n - (preceding - days_in_month year (month - 1)) + 1)
               else (year, month, n - preceding + 1)))"

text \<open>
  The local broken-down time of the epoch second \<open>t\<close>: year, month, day, hour, minute,
  second; \<open>None\<close> when the year is not within 1 to 9999.
\<close>

definition local_time :: "platform \<Rightarrow> int \<Rightarrow> (nat \<times> nat \<times> nat \<times> nat \<times> nat \<times> nat) option" where
  "local_time P t =
     (let l = t + tz_offset P t;
          days = l div 86400 + 719162;
          sod = nat (l mod 86400)
      in if days < 0 then None
         else
           (case ord_to_ymd (nat days) of
              (y, m, d) \<Rightarrow>
                if 9999 < y then None
                else Some (y, m, d, sod div 3600, sod mod 3600 div 60, sod mod 60)))"

text \<open>
  \<open>datetime.fromtimestamp(ms / 1000)\<close> for an integer \<open>ms\<close>. The quotient is a float;
  within the range of \<open>datetime\<close> it is the double nearest to the exact quotient, whose
  whole seconds (rounded down) are \<open>ms div 1000\<close>, and outside that range the call
  raises. The sub-second part is dropped here, since the format below does not print
  it. CPython also converts the time of one day earlier (to find a repeated local hour)
  and raises when that time is out of range.
\<close>

definition fromtimestamp_ms ::
  "platform \<Rightarrow> int \<Rightarrow> error + (nat \<times> nat \<times> nat \<times> nat \<times> nat \<times> nat)" where
  "fromtimestamp_ms P ms =
     (let t = ms div 1000
      in case local_time P t of
           None \<Rightarrow> Inl TimestampRangeError
         | Some dt \<Rightarrow>
             (case local_time P (t - 86400) of
                None \<Rightarrow> Inl TimestampRangeError
              | Some _ \<Rightarrow> Inr dt))"

text \<open>Decimal digits of a natural number, and zero padding on the left.\<close>

function show_nat :: "nat \<Rightarrow> pystr" where
  "show_nat n = (if n < 10 then [48 + n] else show_nat (n div 10) @ [48 + n mod 10])"
  by pat_completeness auto
termination
  by (relation "measure (\<lambda>n. n)") auto

definition zero_pad :: "nat \<Rightarrow> pystr \<Rightarrow> pystr" where
  "zero_pad w s = replicate (w - length s) 48 @ s"

text \<open>\<open>strftime("%Y-%m-%d %H:%M:%S")\<close>.\<close>

fun strftime :: "platform \<Rightarrow> nat \<times> nat \<times> nat \<times> nat \<times> nat \<times> nat \<Rightarrow> pystr" where
  "strftime P (y, m, d, hh, mm, ss) =
     (if pad_year P then zero_pad 4 (show_nat y) else show_nat y) @ ascii ''-'' @
     zero_pad 2 (show_nat m) @ ascii ''-'' @ zero_pad 2 (show_nat d) @ ascii '' '' @
     zero_pad 2 (show_nat hh) @ ascii '':'' @ zero_pad 2 (show_nat mm) @ ascii '':'' @
     zero_pad 2 (show_nat ss)"

text \<open>
  The \<open>messageTimestamp\<close> entry: the conditional expression tests the truth value of
  \<open>message_data.get("internalDate")\<close> first and converts only then.
\<close>

definition message_timestamp :: "platform \<Rightarrow> (pystr \<times> json) list \<Rightarrow> error + json" where
  "message_timestamp P message_data =
     (if truthy (dict_get message_data (ascii ''internalDate'') JNull) then
        (case py_int P (dict_get message_data (ascii ''internalDate'') (JStr (ascii ''0''))) of
           Inl e \<Rightarrow> Inl e
         | Inr ms \<Rightarrow>
             (case fromtimestamp_ms P ms of
                Inl e \<Rightarrow> Inl e
              | Inr dt \<Rightarrow> Inr (JStr (strftime P dt))))
      else Inr (JStr []))"

subsection \<open>parse_message\<close>

text \<open>
  The dict \<open>parse_message\<close> returns has the same seven keys on every path, so it is a
  record; each entry holds whatever value the expression of the source yields.
\<close>

record message_record =
  messageId :: json
  threadId :: json
  messageTimestamp :: json
  labelIds :: json
  sender :: json
  subject :: json
  messageText :: json

text \<open>
  The \<open>messageText\<close> entry: \<open>text[:500] + "..." if len(text) > 500 else text\<close>, where
  \<open>text\<close> is what \<open>extract_text_from_payload\<close> returns (the source calls it up to three
  times on the same argument; it is a pure function).
\<close>

definition truncate_text :: "pystr \<Rightarrow> pystr" where
  "truncate_text text = (if 500 < length text then take 500 text @ ascii ''...'' else text)"

text \<open>
  \<open>parse_message\<close>: the statements and the entries of the dict literal are evaluated in
  the order of the source, and the first exception ends the call.
\<close>

fun parse_message :: "platform \<Rightarrow> json \<Rightarrow> error + message_record" where
  "parse_message P (JObj message_data) =
     (case py_get (dict_get message_data (ascii ''payload'') (JObj [])) (ascii ''headers'') (JArr []) of
        Inl e \<Rightarrow> Inl e
      | Inr headers \<Rightarrow>
     (case message_timestamp P message_data of
        Inl e \<Rightarrow> Inl e
      | Inr ts \<Rightarrow>
     (case get_header_value P headers (ascii ''From'') of
        Inl e \<Rightarrow> Inl e
      | Inr from_value \<Rightarrow>
     (case get_header_value P headers (ascii ''Subject'') of
        Inl e \<Rightarrow> Inl e
      | Inr subject_value \<Rightarrow>
     (case extract_text_from_payload (dict_get message_data (ascii ''payload'') (JObj [])) of
        Inl e \<Rightarrow> Inl e
      | Inr text \<Rightarrow>
          Inr \<lparr> messageId = dict_get message_data (ascii ''id'') (JStr []),
                threadId = dict_get message_data (ascii ''threadId'') (JStr []),
                messageTimestamp = ts,
                labelIds = dict_get message_data (ascii ''labelIds'') (JArr []),
                sender = from_value,
                subject = subject_value,
                messageText = JStr (truncate_text text) \<rparr>)))))"
| "parse_message P _ = Inl AttributeError"

section \<open>The API client and the orchestrator\<close>

text \<open>
  The remote service, as the client sees it through \<open>session.get\<close>: a request either
  fails in the transport (connection error, timeout) or is answered with a status code
  and a body, which is JSON or not. The service answers the labels request, the profile
  request, the message-list request (by its \<open>maxResults\<close>) and the request for one
  message (by the identifier the URL is built from).
\<close>

datatype reply = Unreachable | Reply nat "json option"

record remote =
  labels_reply :: reply
  profile_reply :: reply
  messages_reply :: "int \<Rightarrow> reply"
  message_reply :: "json \<Rightarrow> reply"

text \<open>
  \<open>_make_request\<close>: \<open>raise_for_status\<close> raises on a status outside 200 to 299, then
  \<open>response.json()\<close> raises on a body that is not JSON.
\<close>

fun make_request :: "reply \<Rightarrow> error + json" where
  "make_request Unreachable = Inl TransportError"
| "make_request (Reply status body) =
     (if 200 \<le> status \<and> status \<le> 299
      then (case body of None \<Rightarrow> Inl JSONDecodeError | Some data \<Rightarrow> Inr data)
      else Inl (HTTPStatusError status))"

definition get_labels :: "remote \<Rightarrow> error + json" where
  "get_labels R =
     (case make_request (labels_reply R) of
        Inl e \<Rightarrow> Inl e
      | Inr data \<Rightarrow> py_get data (ascii ''labels'') (JArr []))"

definition get_profile :: "remote \<Rightarrow> error + json" where
  "get_profile R = make_request (profile_reply R)"

text \<open>\<open>msg["id"]\<close>: KeyError on a dict without the key, TypeError on any other value.\<close>

fun subscript_id :: "json \<Rightarrow> error + json" where
  "subscript_id (JObj d) =
     (case map_of d (ascii ''id'') of None \<Rightarrow> Inl KeyError | Some v \<Rightarrow> Inr v)"
| "subscript_id _ = Inl TypeError"

text \<open>
  A list comprehension over results that may raise: the first exception, in list order,
  ends it.
\<close>

fun collect :: "(error + 'a) list \<Rightarrow> error + 'a list" where
  "collect [] = Inr []"
| "collect (Inl e # rs) = Inl e"
| "collect (Inr x # rs) = (case collect rs of Inl e \<Rightarrow> Inl e | Inr xs \<Rightarrow> Inr (x # xs))"

definition get_message_list :: "remote \<Rightarrow> int \<Rightarrow> error + json list" where
  "get_message_list R max_results =
     (case make_request (messages_reply R max_results) of
        Inl e \<Rightarrow> Inl e
      | Inr data \<Rightarrow>
          (case py_get data (ascii ''messages'') (JArr []) of
             Inl e \<Rightarrow> Inl e
           | Inr messages \<Rightarrow>
               (case py_iter messages of
                  Inl e \<Rightarrow> Inl e
                | Inr msgs \<Rightarrow> collect (map subscript_id msgs))))"

definition get_message_details :: "remote \<Rightarrow> json \<Rightarrow> error + json" where
  "get_message_details R message_id = make_request (message_reply R message_id)"

text \<open>
  \<open>await asyncio.gather(*tasks)\<close>, with each task's outcome given. The tasks run
  concurrently; \<open>schedule\<close> lists their indices in the order in which they complete.
  The first task to fail, in that order, raises its exception in the awaiting caller
  at once. When no task fails the results come back as a list in the order of the
  tasks, whatever the order of completion.
\<close>

definition gather :: "nat list \<Rightarrow> (error + 'a) list \<Rightarrow> error + 'a list" where
  "gather schedule outcomes =
     (case find (\<lambda>i. i < length outcomes \<and> isl (outcomes ! i)) schedule of
        Some i \<Rightarrow> Inl (projl (outcomes ! i))
      | None \<Rightarrow> collect outcomes)"

record fetch_result =
  labels :: json
  profile :: json
  emails :: "message_record list"

text \<open>The three tasks of the first \<open>gather\<close>, and the tasks of the second.\<close>

definition phase1 :: "remote \<Rightarrow> (error + json) list" where
  "phase1 R = [get_labels R, get_profile R, map_sum id JArr (get_message_list R 10)]"

definition phase2 :: "remote \<Rightarrow> json list \<Rightarrow> (error + json) list" where
  "phase2 R message_ids = map (get_message_details R) message_ids"

text \<open>
  \<open>fetch_gmail_data_async\<close>, with the completion order of each \<open>gather\<close> as a parameter.
\<close>

definition fetch_gmail_data_async ::
  "platform \<Rightarrow> remote \<Rightarrow> nat list \<Rightarrow> nat list \<Rightarrow> error + fetch_result" where
  "fetch_gmail_data_async P R schedule1 schedule2 =
     (case gather schedule1 (phase1 R) of
        Inl e \<Rightarrow> Inl e
      | Inr [labels_v, profile_v, JArr message_ids] \<Rightarrow>
          (case gather schedule2 (phase2 R message_ids) of
             Inl e \<Rightarrow> Inl e
           | Inr message_details \<Rightarrow>
               (case collect (map (parse_message P) message_details) of
                  Inl e \<Rightarrow> Inl e
                | Inr parsed_messages \<Rightarrow>
                    Inr \<lparr> labels = labels_v, profile = profile_v, emails = parsed_messages \<rparr>))
      | Inr _ \<Rightarrow> Inl ValueError)"

text \<open>
  The last case is the ValueError of unpacking a list that does not have three items;
  the first \<open>gather\<close> has three tasks, so it is never taken.
\<close>

section \<open>Notions of the specification\<close>

subsection \<open>Shapes of values\<close>

fun is_str :: "json \<Rightarrow> bool" where
  "is_str (JStr s) = True"
| "is_str _ = False"

fun is_list :: "json \<Rightarrow> bool" where
  "is_list (JArr xs) = True"
| "is_list _ = False"

fun is_dict :: "json \<Rightarrow> bool" where
  "is_dict (JObj d) = True"
| "is_dict _ = False"

text \<open>A key of a dict is absent, or its value has the given shape.\<close>

definition field_ok :: "(pystr \<times> json) list \<Rightarrow> pystr \<Rightarrow> (json \<Rightarrow> bool) \<Rightarrow> bool" where
  "field_ok d k ok = (case map_of d k of None \<Rightarrow> True | Some v \<Rightarrow> ok v)"

subsection \<open>Headers\<close>

text \<open>
  The first header of a list whose name matches \<open>name\<close> when both are lower-cased, and
  its value; the empty string when no header matches. A header without a name has the
  name \<open>""\<close>, a header without a value the value \<open>""\<close>, as \<open>get\<close> defaults them.
\<close>

fun header_matches :: "platform \<Rightarrow> pystr \<Rightarrow> json \<Rightarrow> bool" where
  "header_matches P name (JObj d) =
     (case dict_get d (ascii ''name'') (JStr []) of
        JStr n \<Rightarrow> lower P n = lower P name
      | _ \<Rightarrow> False)"
| "header_matches P name _ = False"

fun header_value :: "json \<Rightarrow> json" where
  "header_value (JObj d) = dict_get d (ascii ''value'') (JStr [])"
| "header_value _ = JStr []"

definition first_header_value :: "platform \<Rightarrow> json list \<Rightarrow> pystr \<Rightarrow> json" where
  "first_header_value P hs name =
     (case find (header_matches P name) hs of None \<Rightarrow> JStr [] | Some h \<Rightarrow> header_value h)"

text \<open>
  The header list of a message: the elements of \<open>payload.headers\<close>, none when the
  message has no payload or the payload no headers.
\<close>

definition message_headers :: "(pystr \<times> json) list \<Rightarrow> json list" where
  "message_headers message_data =
     (case dict_get message_data (ascii ''payload'') (JObj []) of
        JObj payload \<Rightarrow>
          (case py_iter (dict_get payload (ascii ''headers'') (JArr [])) of
             Inr hs \<Rightarrow> hs
           | Inl e \<Rightarrow> [])
      | _ \<Rightarrow> [])"

subsection \<open>Parts\<close>

text \<open>
  A part the loop can read: a dict whose \<open>body\<close>, when it has one, is a dict.
\<close>

fun part_ok :: "json \<Rightarrow> bool" where
  "part_ok (JObj d) = field_ok d (ascii ''body'') is_dict"
| "part_ok _ = False"

text \<open>The body data of a part, \<open>""\<close> when the part has no body or the body no data.\<close>

fun part_data :: "json \<Rightarrow> json" where
  "part_data (JObj d) =
     (case dict_get d (ascii ''body'') (JObj []) of
        JObj b \<Rightarrow> dict_get b (ascii ''data'') (JStr [])
      | _ \<Rightarrow> JStr [])"
| "part_data _ = JStr []"

fun is_text_plain :: "json \<Rightarrow> bool" where
  "is_text_plain (JObj d) = (dict_get d (ascii ''mimeType'') JNull = JStr (ascii ''text/plain''))"
| "is_text_plain _ = False"

text \<open>
  The text of the specification's multipart rule, read as it is written: every part
  of content type \<open>text/plain\<close> gives its decoded body data, a part whose data cannot
  be decoded gives nothing, and the texts are joined by newlines.
\<close>

definition spec_part_text :: "json \<Rightarrow> pystr option" where
  "spec_part_text p = (if is_text_plain p then decode_body (part_data p) else None)"

definition spec_multipart_text :: "json list \<Rightarrow> pystr" where
  "spec_multipart_text parts = join (ascii [CHR 0x0A]) (List.map_filter spec_part_text parts)"

text \<open>
  What a part contributes in the code: as above, but only when its body data is not
  empty (not falsy).
\<close>

definition part_text :: "json \<Rightarrow> pystr option" where
  "part_text p =
     (if is_text_plain p \<and> truthy (part_data p) then decode_body (part_data p) else None)"

text \<open>A part of content type \<open>text/plain\<close> whose body data is absent or the empty string.\<close>

definition empty_bodied :: "json \<Rightarrow> bool" where
  "empty_bodied p = (part_ok p \<and> is_text_plain p \<and> part_data p = JStr [])"

subsection \<open>Timestamps\<close>

text \<open>
  The local time of the epoch second \<open>t\<close> lies within the years 1 to 9999, the range of
  \<open>datetime\<close>; and within the years 1000 to 9999, which \<open>%Y\<close> prints with four digits
  on every platform.
\<close>

definition in_datetime_range :: "platform \<Rightarrow> int \<Rightarrow> bool" where
  "in_datetime_range P t =
     (- 62135596800 \<le> t + tz_offset P t \<and> t + tz_offset P t \<le> 253402300799)"

definition four_digit_year :: "platform \<Rightarrow> int \<Rightarrow> bool" where
  "four_digit_year P t =
     (- 30610224000 \<le> t + tz_offset P t \<and> t + tz_offset P t \<le> 253402300799)"

text \<open>A non-empty string of ASCII digits, and the number it writes.\<close>

definition is_decimal :: "pystr \<Rightarrow> bool" where
  "is_decimal s = (s \<noteq> [] \<and> list_all (\<lambda>c. 48 \<le> c \<and> c \<le> 57) s)"

definition decimal_value :: "pystr \<Rightarrow> nat" where
  "decimal_value s = foldl (\<lambda>a c. a * 10 + (c - 48)) 0 s"

subsection \<open>Well-formed messages\<close>

text \<open>
  A message in which every field that is present has the shape the remote service
  documents: \<open>id\<close> and \<open>threadId\<close> strings, \<open>labelIds\<close> a list, \<open>internalDate\<close> the empty
  string or a string that \<open>int()\<close> parses to a time within the range of \<open>datetime\<close>
  (as is the time one day earlier), \<open>payload\<close> a dict whose \<open>headers\<close> are a list of
  dicts with string names and values, whose \<open>parts\<close> are a list of readable parts and
  whose \<open>body\<close> is a dict.
\<close>

fun header_ok :: "json \<Rightarrow> bool" where
  "header_ok (JObj d) = (field_ok d (ascii ''name'') is_str \<and> field_ok d (ascii ''value'') is_str)"
| "header_ok _ = False"

fun headers_ok :: "json \<Rightarrow> bool" where
  "headers_ok (JArr hs) = list_all header_ok hs"
| "headers_ok _ = False"

fun parts_ok :: "json \<Rightarrow> bool" where
  "parts_ok (JArr ps) = list_all part_ok ps"
| "parts_ok _ = False"

fun payload_ok :: "json \<Rightarrow> bool" where
  "payload_ok (JObj d) =
     (field_ok d (ascii ''headers'') headers_ok \<and> field_ok d (ascii ''parts'') parts_ok \<and>
      field_ok d (ascii ''body'') is_dict)"
| "payload_ok _ = False"

fun timestamp_ok :: "platform \<Rightarrow> json \<Rightarrow> bool" where
  "timestamp_ok P (JStr s) =
     (s = [] \<or>
      (case py_int P (JStr s) of
         Inl e \<Rightarrow> False
       | Inr ms \<Rightarrow>
           in_datetime_range P (ms div 1000) \<and> in_datetime_range P (ms div 1000 - 86400)))"
| "timestamp_ok P _ = False"

definition well_formed :: "platform \<Rightarrow> (pystr \<times> json) list \<Rightarrow> bool" where
  "well_formed P message_data =
     (field_ok message_data (ascii ''id'') is_str \<and>
      field_ok message_data (ascii ''threadId'') is_str \<and>
      field_ok message_data (ascii ''labelIds'') is_list \<and>
      field_ok message_data (ascii ''internalDate'') (timestamp_ok P) \<and>
      field_ok message_data (ascii ''payload'') payload_ok)"

subsection \<open>Base64url encoding\<close>

text \<open>
  Modelled from the spec: the encoder of the round trip, "encoding arbitrary text as
  base64url without padding", is not part of the program (it only decodes). It is the
  standard library's \<open>text.encode('utf-8')\<close>, \<open>base64.urlsafe_b64encode\<close> (RFC 4648,
  section 5) and the removal of the trailing \<open>=\<close> characters.
\<close>

definition is_scalar :: "nat \<Rightarrow> bool" where
  "is_scalar c = (c < 55296 \<or> (57344 \<le> c \<and> c < 1114112))"

definition utf8_encode_char :: "nat \<Rightarrow> nat list" where
  "utf8_encode_char c =
     (if c < 128 then [c]
      else if c < 2048 then [192 + c div 64, 128 + c mod 64]
      else if c < 65536 then [224 + c div 4096, 128 + c div 64 mod 64, 128 + c mod 64]
      else [240 + c div 262144, 128 + c div 4096 mod 64, 128 + c div 64 mod 64, 128 + c mod 64])"

text \<open>\<open>text.encode('utf-8')\<close>: UnicodeEncodeError (\<open>None\<close>) on a surrogate code point.\<close>

definition utf8_encode :: "pystr \<Rightarrow> nat list option" where
  "utf8_encode text =
     (if list_all is_scalar text then Some (concat (map utf8_encode_char text)) else None)"

definition b64url_char :: "nat \<Rightarrow> nat" where
  "b64url_char v =
     (if v < 26 then 65 + v
      else if v < 52 then 71 + v
      else if v < 62 then v - 4
      else if v = 62 then 45
      else 95)"

fun urlsafe_b64encode :: "nat list \<Rightarrow> pystr" where
  "urlsafe_b64encode [] = []"
| "urlsafe_b64encode [a] =
     [b64url_char (a div 4), b64url_char (a mod 4 * 16), 61, 61]"
| "urlsafe_b64encode [a, b] =
     [b64url_char (a div 4), b64url_char (a mod 4 * 16 + b div 16),
      b64url_char (b mod 16 * 4), 61]"
| "urlsafe_b64encode (a # b # c # rest) =
     [b64url_char (a div 4), b64url_char (a mod 4 * 16 + b div 16),
      b64url_char (b mod 16 * 4 + c div 64), b64url_char (c mod 64)]
     @ urlsafe_b64encode rest"

definition strip_padding :: "pystr \<Rightarrow> pystr" where
  "strip_padding s = rev (dropWhile (\<lambda>c. c = 61) (rev s))"

definition encode_unpadded :: "pystr \<Rightarrow> pystr option" where
  "encode_unpadded text = map_option (\<lambda>bs. strip_padding (urlsafe_b64encode bs)) (utf8_encode text)"

text \<open>
  The encoding without its padding, written group by group: a last group of one byte
  gives two characters, one of two bytes gives three. It is shown below to be
  \<open>strip_padding (urlsafe_b64encode bs)\<close>.
\<close>

fun b64_unpadded :: "nat list \<Rightarrow> pystr" where
  "b64_unpadded [] = []"
| "b64_unpadded [a] = [b64url_char (a div 4), b64url_char (a mod 4 * 16)]"
| "b64_unpadded [a, b] =
     [b64url_char (a div 4), b64url_char (a mod 4 * 16 + b div 16), b64url_char (b mod 16 * 4)]"
| "b64_unpadded (a # b # c # rest) =
     [b64url_char (a div 4), b64url_char (a mod 4 * 16 + b div 16),
      b64url_char (b mod 16 * 4 + c div 64), b64url_char (c mod 64)]
     @ b64_unpadded rest"

text \<open>
  Modelled from the spec: the tolerant decoding as the specification words it, "pad with
  \<open>=\<close> characters until length is a multiple of 4 before decoding". The program appends
  three \<open>=\<close> characters whatever the length instead (\<open>decode_body\<close>).
\<close>

definition pad_to_four :: "pystr \<Rightarrow> pystr" where
  "pad_to_four s = s @ replicate ((4 - length s mod 4) mod 4) 61"

definition padding_decode :: "pystr \<Rightarrow> pystr option" where
  "padding_decode s =
     (case urlsafe_b64decode (pad_to_four s) of
        None \<Rightarrow> None
      | Some bs \<Rightarrow> utf8_decode bs)"

subsection \<open>A platform for the examples\<close>

text \<open>
  A machine whose local time is UTC, with CPython's default digit limit. The examples
  below are ASCII, so the two Unicode tables are never consulted.
\<close>

definition utc_platform :: platform where
  "utc_platform =
     \<lparr> tz_offset = (\<lambda>t. 0), unicode_lower = (\<lambda>s. s), unicode_int = (\<lambda>s. None),
       max_str_digits = 4300, pad_year = False \<rparr>"

subsection \<open>Example values\<close>

text \<open>A part of content type \<open>text/plain\<close> and one of \<open>text/html\<close>, with the given body data.\<close>

definition plain_part :: "pystr \<Rightarrow> json" where
  "plain_part data =
     JObj [(ascii ''mimeType'', JStr (ascii ''text/plain'')),
           (ascii ''body'', JObj [(ascii ''data'', JStr data)])]"

definition html_part :: "pystr \<Rightarrow> json" where
  "html_part data =
     JObj [(ascii ''mimeType'', JStr (ascii ''text/html'')),
           (ascii ''body'', JObj [(ascii ''data'', JStr data)])]"

text \<open>A message with the identifier \<open>m1\<close> and a simple \<open>text/plain\<close> payload.\<close>

definition body_message :: "pystr \<Rightarrow> json" where
  "body_message data =
     JObj [(ascii ''id'', JStr (ascii ''m1'')), (ascii ''payload'', plain_part data)]"

text \<open>A header with the given name and value.\<close>

definition header :: "string \<Rightarrow> string \<Rightarrow> json" where
  "header n v = JObj [(ascii ''name'', JStr (ascii n)), (ascii ''value'', JStr (ascii v))]"

text \<open>
  A remote service with three messages \<open>m1\<close>, \<open>m2\<close>, \<open>m3\<close>, which answers the request
  for a message with status 500 when its identifier is in the given list and with the
  message otherwise; and the record of a message that has an identifier only.
\<close>

definition example_remote :: "json list \<Rightarrow> remote" where
  "example_remote failing =
     \<lparr> labels_reply = Reply 200 (Some (JObj [(ascii ''labels'', JArr [])])),
       profile_reply = Reply 200 (Some (JObj [(ascii ''emailAddress'', JStr (ascii ''a@b.com''))])),
       messages_reply =
         (\<lambda>n. Reply 200 (Some (JObj [(ascii ''messages'',
            JArr [JObj [(ascii ''id'', JStr (ascii ''m1''))],
                  JObj [(ascii ''id'', JStr (ascii ''m2''))],
                  JObj [(ascii ''id'', JStr (ascii ''m3''))]])]))),
       message_reply =
         (\<lambda>i. if i \<in> set failing then Reply 500 None
              else Reply 200 (Some (JObj [(ascii ''id'', i)]))) \<rparr>"

definition id_record :: "string \<Rightarrow> message_record" where
  "id_record i =
     \<lparr> messageId = JStr (ascii i), threadId = JStr [], messageTimestamp = JStr [],
       labelIds = JArr [], sender = JStr [], subject = JStr [], messageText = JStr [] \<rparr>"

section \<open>The multipart branch\<close>

text \<open>
  One step of the loop over the parts, for a part the loop can read: the part's text
  is appended when it has one.
\<close>

lemma part_ok_step:
  "part_ok p \<Longrightarrow> parts_loop (p # rest) acc =
     parts_loop rest (case part_text p of None \<Rightarrow> acc | Some t \<Rightarrow> acc @ [t])"
  by (cases p) (auto simp: part_text_def field_ok_def dict_get_def split: option.splits json.splits)

lemma parts_loop_map_filter:
  "list_all part_ok parts \<Longrightarrow> parts_loop parts acc = Inr (acc @ List.map_filter part_text parts)"
proof (induction parts arbitrary: acc)
  case Nil
  then show ?case by (simp add: List.map_filter_simps)
next
  case (Cons p parts)
  then show ?case
    by (simp add: part_ok_step List.map_filter_simps split: option.splits del: parts_loop.simps)
qed

lemma parts_loop_step_result:
  "parts_loop (p # rest) acc = Inr tp \<Longrightarrow>
     parts_loop rest (case part_text p of None \<Rightarrow> acc | Some t \<Rightarrow> acc @ [t]) = Inr tp"
proof (cases p)
  case (JObj d)
  assume "parts_loop (p # rest) acc = Inr tp"
  with JObj show ?thesis
    by (auto simp: part_text_def dict_get_def simp del: decode_body.simps
        split: sum.splits option.splits if_splits json.splits)
qed simp_all

lemma parts_loop_result:
  "parts_loop parts acc = Inr tp \<Longrightarrow> tp = acc @ List.map_filter part_text parts"
proof (induction parts arbitrary: acc)
  case Nil
  then show ?case by (simp add: List.map_filter_simps)
next
  case (Cons p parts)
  from Cons.prems have "parts_loop parts (case part_text p of None \<Rightarrow> acc | Some t \<Rightarrow> acc @ [t]) = Inr tp"
    by (rule parts_loop_step_result)
  then have "tp = (case part_text p of None \<Rightarrow> acc | Some t \<Rightarrow> acc @ [t]) @ List.map_filter part_text parts"
    by (rule Cons.IH)
  then show ?case
    by (simp add: List.map_filter_simps split: option.splits)
qed

lemma extract_parts:
  "map_of d (ascii ''parts'') = Some v \<Longrightarrow>
   extract_text_from_payload (JObj d) =
     (case py_iter v of Inl e \<Rightarrow> Inl e
      | Inr parts \<Rightarrow> (case parts_loop parts [] of Inl e \<Rightarrow> Inl e
          | Inr tp \<Rightarrow> Inr (join (ascii [CHR 0x0A]) tp)))"
  by (auto simp: extract_text_from_payload_def multipart_text_def)

text \<open>
  C6, amended. For a payload with a \<open>parts\<close> list, the extracted text is the join by
  newlines, in payload order, of the decoded body data of exactly the parts of content
  type \<open>text/plain\<close> whose body data is not empty and decodes; every other part
  contributes nothing. When every part can be read (a dict whose body, if any, is a
  dict) the extraction returns this text, and whenever it returns, this is the text.
\<close>

theorem multipart_text_joined:
  "map_of d (ascii ''parts'') = Some (JArr parts) \<Longrightarrow>
     (list_all part_ok parts \<longrightarrow>
        extract_text_from_payload (JObj d) =
          Inr (join (ascii [CHR 0x0A]) (List.map_filter part_text parts))) \<and>
     (\<forall>text. extract_text_from_payload (JObj d) = Inr text \<longrightarrow>
        text = join (ascii [CHR 0x0A]) (List.map_filter part_text parts))"
proof (intro conjI impI allI)
  assume k: "map_of d (ascii ''parts'') = Some (JArr parts)" and ok: "list_all part_ok parts"
  show "extract_text_from_payload (JObj d) =
          Inr (join (ascii [CHR 0x0A]) (List.map_filter part_text parts))"
    by (simp add: extract_parts [OF k] parts_loop_map_filter [OF ok])
next
  fix t
  assume k: "map_of d (ascii ''parts'') = Some (JArr parts)"
    and r: "extract_text_from_payload (JObj d) = Inr t"
  from r obtain tp where tp: "parts_loop parts [] = Inr tp" and t: "t = join (ascii [CHR 0x0A]) tp"
    by (auto simp: extract_parts [OF k] split: sum.splits)
  from parts_loop_result [OF tp] t
  show "t = join (ascii [CHR 0x0A]) (List.map_filter part_text parts)"
    by simp
qed


theorem multipart_text_joined_witness:
  "extract_text_from_payload
     (JObj [(ascii ''mimeType'', JStr (ascii ''multipart/alternative'')),
            (ascii ''parts'',
             JArr [plain_part (ascii ''QQ''), html_part (ascii ''PGI-''), plain_part (ascii ''Qg'')])])
   = Inr (ascii ''A'' @ [10] @ ascii ''B'')"
proof -
  let ?parts = "[plain_part (ascii ''QQ''), html_part (ascii ''PGI-''), plain_part (ascii ''Qg'')]"
  let ?d = "[(ascii ''mimeType'', JStr (ascii ''multipart/alternative'')),
            (ascii ''parts'', JArr ?parts)]"
  have k: "map_of ?d (ascii ''parts'') = Some (JArr ?parts)"
    by (simp add: ascii_def)
  have ok: "list_all part_ok ?parts"
    by (simp add: plain_part_def html_part_def field_ok_def ascii_def)
  have v: "join (ascii [CHR 0x0A]) (List.map_filter part_text ?parts) = ascii ''A'' @ [10] @ ascii ''B''"
    by code_simp
  from multipart_text_joined [OF k] ok
  have "extract_text_from_payload (JObj ?d) = Inr (join (ascii [CHR 0x0A]) (List.map_filter part_text ?parts))"
    by blast
  then show ?thesis
    by (simp only: v)
qed

text \<open>
  C6 as stated fails on a \<open>text/plain\<close> part with empty body data between the parts
  "A" and "B": the empty string decodes to the empty text, so the rule as written joins
  three texts, while the code skips the part.
\<close>

theorem multipart_spec_counterexample:
  "extract_text_from_payload
     (JObj [(ascii ''parts'',
             JArr [plain_part (ascii ''QQ''), plain_part [], plain_part (ascii ''Qg'')])])
     = Inr (ascii ''A'' @ [10] @ ascii ''B'') \<and>
   spec_multipart_text [plain_part (ascii ''QQ''), plain_part [], plain_part (ascii ''Qg'')]
     = ascii ''A'' @ [10, 10] @ ascii ''B''"
  by code_simp

lemma empty_bodied_skip:
  "empty_bodied p \<Longrightarrow> parts_loop (p # qs) acc = parts_loop qs acc"
  by (simp add: part_ok_step empty_bodied_def part_text_def del: parts_loop.simps)

lemma parts_loop_skip:
  "empty_bodied p \<Longrightarrow> parts_loop (ps @ p # qs) acc = parts_loop (ps @ qs) acc"
proof (induction ps arbitrary: acc)
  case Nil
  then show ?case by (simp add: empty_bodied_skip del: parts_loop.simps)
next
  case (Cons x ps)
  then show ?case
    by (simp split: sum.splits option.splits)
qed

text \<open>
  C10. In the multipart branch a \<open>text/plain\<close> part whose body data is absent or the
  empty string is skipped: the extracted text of a payload is the same with the part and
  without it, so the part adds no element and no separator to the join. Parts "A",
  empty and "B" give the text "A", newline, "B".
\<close>
theorem empty_bodied_part_skipped:
  "empty_bodied p \<Longrightarrow>
   map_of d (ascii ''parts'') = Some (JArr (ps @ p # qs)) \<Longrightarrow>
   map_of d' (ascii ''parts'') = Some (JArr (ps @ qs)) \<Longrightarrow>
   extract_text_from_payload (JObj d) = extract_text_from_payload (JObj d')"
  by (simp add: extract_parts parts_loop_skip)

theorem empty_bodied_part_skipped_witness:
  "empty_bodied (plain_part []) \<and>
   empty_bodied (JObj [(ascii ''mimeType'', JStr (ascii ''text/plain''))]) \<and>
   extract_text_from_payload
     (JObj [(ascii ''parts'', JArr [plain_part (ascii ''QQ''), plain_part [], plain_part (ascii ''Qg'')])])
   = Inr (ascii ''A'' @ [10] @ ascii ''B'')"
proof -
  let ?A = "plain_part (ascii ''QQ'')" and ?B = "plain_part (ascii ''Qg'')"
  have e: "empty_bodied (plain_part [])"
    by code_simp
  have e': "empty_bodied (JObj [(ascii ''mimeType'', JStr (ascii ''text/plain''))])"
    by code_simp
  have k: "map_of [(ascii ''parts'', JArr ([?A] @ plain_part [] # [?B]))] (ascii ''parts'')
             = Some (JArr ([?A] @ plain_part [] # [?B]))"
    by simp
  have k': "map_of [(ascii ''parts'', JArr [?A, ?B])] (ascii ''parts'') = Some (JArr ([?A] @ [?B]))"
    by simp
  have v: "extract_text_from_payload (JObj [(ascii ''parts'', JArr [?A, ?B])])
             = Inr (ascii ''A'' @ [10] @ ascii ''B'')"
    by code_simp
  have "extract_text_from_payload (JObj [(ascii ''parts'', JArr ([?A] @ plain_part [] # [?B]))])
          = extract_text_from_payload (JObj [(ascii ''parts'', JArr [?A, ?B])])"
    by (rule empty_bodied_part_skipped [OF e k k'])
  with v have "extract_text_from_payload (JObj [(ascii ''parts'', JArr ([?A] @ plain_part [] # [?B]))])
          = Inr (ascii ''A'' @ [10] @ ascii ''B'')"
    by (simp only:)
  then have "extract_text_from_payload (JObj [(ascii ''parts'', JArr [?A, plain_part [], ?B])])
          = Inr (ascii ''A'' @ [10] @ ascii ''B'')"
    by (simp only: append.simps)
  with e e' show ?thesis
    by (intro conjI)
qed

lemma map_filter_all_none:
  "list_all (\<lambda>p. f p = None) xs \<Longrightarrow> List.map_filter f xs = []"
  by (induction xs) (simp_all add: List.map_filter_simps)

text \<open>
  C9. A \<open>parts\<close> key alone selects the multipart branch: the extracted text of a dict
  with the key is that of the dict with the \<open>parts\<close> entry alone, whatever the payload's
  own content type and body are. When the value is a list with no part that contributes
  (an empty list included), the text is empty: it is returned when every part can be
  read, and it is the only text the extraction can return.
\<close>
theorem parts_key_selects_multipart:
  "map_of d (ascii ''parts'') = Some v \<Longrightarrow>
     extract_text_from_payload (JObj d) = multipart_text (JObj [(ascii ''parts'', v)]) \<and>
     (\<forall>parts. v = JArr parts \<and> list_all (\<lambda>p. part_text p = None) parts \<longrightarrow>
        (list_all part_ok parts \<longrightarrow> extract_text_from_payload (JObj d) = Inr []) \<and>
        (\<forall>t. extract_text_from_payload (JObj d) = Inr t \<longrightarrow> t = []))"
proof (intro conjI allI impI)
  assume k: "map_of d (ascii ''parts'') = Some v"
  show "extract_text_from_payload (JObj d) = multipart_text (JObj [(ascii ''parts'', v)])"
    by (simp add: extract_parts [OF k] multipart_text_def)
next
  fix parts
  assume k: "map_of d (ascii ''parts'') = Some v"
    and h: "v = JArr parts \<and> list_all (\<lambda>p. part_text p = None) parts"
    and ok: "list_all part_ok parts"
  from h have "List.map_filter part_text parts = []"
    by (simp add: map_filter_all_none)
  with h k ok show "extract_text_from_payload (JObj d) = Inr []"
    by (simp add: extract_parts parts_loop_map_filter)
next
  fix parts t
  assume k: "map_of d (ascii ''parts'') = Some v"
    and h: "v = JArr parts \<and> list_all (\<lambda>p. part_text p = None) parts"
    and r: "extract_text_from_payload (JObj d) = Inr t"
  from h have e: "List.map_filter part_text parts = []"
    by (simp add: map_filter_all_none)
  from r h obtain tp where tp: "parts_loop parts [] = Inr tp" and t: "t = join (ascii [CHR 0x0A]) tp"
    by (auto simp: extract_parts [OF k] split: sum.splits)
  from parts_loop_result [OF tp] e t show "t = []"
    by simp
qed

theorem parts_key_selects_multipart_witness:
  "simple_text (plain_part (ascii ''aGk'')) = Inr (ascii ''hi'') \<and>
   extract_text_from_payload
     (JObj [(ascii ''mimeType'', JStr (ascii ''text/plain'')),
            (ascii ''body'', JObj [(ascii ''data'', JStr (ascii ''aGk''))]),
            (ascii ''parts'', JArr [])]) = Inr [] \<and>
   extract_text_from_payload
     (JObj [(ascii ''mimeType'', JStr (ascii ''text/plain'')),
            (ascii ''body'', JObj [(ascii ''data'', JStr (ascii ''aGk''))]),
            (ascii ''parts'', JArr [html_part (ascii ''aGk''), plain_part (ascii ''a'')])]) = Inr []"
proof -
  let ?top = "[(ascii ''mimeType'', JStr (ascii ''text/plain'')),
               (ascii ''body'', JObj [(ascii ''data'', JStr (ascii ''aGk''))])]"
  let ?ps = "[html_part (ascii ''aGk''), plain_part (ascii ''a'')]"
  have s: "simple_text (plain_part (ascii ''aGk'')) = Inr (ascii ''hi'')"
    by code_simp
  have k0: "map_of (?top @ [(ascii ''parts'', JArr [])]) (ascii ''parts'') = Some (JArr [])"
    by (simp add: ascii_def)
  have k1: "map_of (?top @ [(ascii ''parts'', JArr ?ps)]) (ascii ''parts'') = Some (JArr ?ps)"
    by (simp add: ascii_def)
  have n: "list_all part_ok ?ps \<and> list_all (\<lambda>p. part_text p = None) ?ps"
    by code_simp
  have n0: "list_all part_ok [] \<and> list_all (\<lambda>p. part_text p = None) []"
    by simp
  from parts_key_selects_multipart [OF k0] n0
  have r0: "extract_text_from_payload (JObj (?top @ [(ascii ''parts'', JArr [])])) = Inr []"
    by blast
  from parts_key_selects_multipart [OF k1] n
  have r1: "extract_text_from_payload (JObj (?top @ [(ascii ''parts'', JArr ?ps)])) = Inr []"
    by blast
  from s r0 r1 show ?thesis
    by (simp only: append.simps)
qed


text \<open>Decoding the base64 text of a repeated \<open>ABC\<close>, for bodies of a chosen length.\<close>

lemma utf8_decode_ascii: "is_ascii bs \<Longrightarrow> utf8_decode bs = Some bs"
  by (induction bs) (simp_all add: is_ascii_def)

lemma a2b_loop_ABC:
  "a2b_loop (concat (replicate n [81, 85, 74, 68]) @ rest) 0 0 0 out =
     a2b_loop rest 0 0 0 (out @ concat (replicate n [65, 66, 67]))"
  by (induction n arbitrary: out) (simp_all add: b64_value_def)

lemma decode_body_ABC:
  "decode_body (JStr (concat (replicate n (ascii ''QUJD'')))) = Some (concat (replicate n (ascii ''ABC'')))"
proof -
  have a: "is_ascii (concat (replicate n [81, 85, 74, 68]) @ [61, 61, 61])"
    by (induction n) (simp_all add: is_ascii_def)
  have m: "map urlsafe_translate (concat (replicate n [81, 85, 74, 68]) @ [61, 61, 61])
             = concat (replicate n [81, 85, 74, 68]) @ [61, 61, 61]"
    by (induction n) (simp_all add: urlsafe_translate_def)
  have b: "is_ascii (concat (replicate n [65, 66, 67]))"
    by (induction n) (simp_all add: is_ascii_def)
  have "urlsafe_b64decode (concat (replicate n [81, 85, 74, 68]) @ [61, 61, 61])
          = Some (concat (replicate n [65, 66, 67]))"
    unfolding urlsafe_b64decode_def a2b_base64_def
    by (simp only: a m if_True a2b_loop_ABC) simp
  with b show ?thesis
    by (simp add: ascii_def utf8_decode_ascii)
qed

section \<open>Truncation\<close>

text \<open>
  C5. The \<open>messageText\<close> of the record is the extracted text unchanged when that has at
  most 500 characters, and its first 500 characters followed by \<open>...\<close> when it has
  more.
\<close>
theorem message_text_truncated:
  "parse_message P (JObj message_data) = Inr r \<Longrightarrow>
   extract_text_from_payload (dict_get message_data (ascii ''payload'') (JObj [])) = Inr t \<Longrightarrow>
     (length t \<le> 500 \<longrightarrow> messageText r = JStr t) \<and>
     (500 < length t \<longrightarrow> messageText r = JStr (take 500 t @ ascii ''...''))"
  by (auto simp: truncate_text_def split: sum.splits)


lemma decode_body_ABC_AB:
  "decode_body (JStr (concat (replicate n (ascii ''QUJD'')) @ ascii ''QUI''))
     = Some (concat (replicate n (ascii ''ABC'')) @ ascii ''AB'')"
proof -
  have a: "is_ascii (concat (replicate n [81, 85, 74, 68]) @ [81, 85, 73, 61, 61, 61])"
    by (induction n) (simp_all add: is_ascii_def)
  have m: "map urlsafe_translate (concat (replicate n [81, 85, 74, 68]) @ [81, 85, 73, 61, 61, 61])
             = concat (replicate n [81, 85, 74, 68]) @ [81, 85, 73, 61, 61, 61]"
    by (induction n) (simp_all add: urlsafe_translate_def)
  have b: "is_ascii (concat (replicate n [65, 66, 67]) @ [65, 66])"
    by (induction n) (simp_all add: is_ascii_def)
  have "urlsafe_b64decode (concat (replicate n [81, 85, 74, 68]) @ [81, 85, 73, 61, 61, 61])
          = Some (concat (replicate n [65, 66, 67]) @ [65, 66])"
    unfolding urlsafe_b64decode_def a2b_base64_def
    by (simp only: a m if_True a2b_loop_ABC) (simp add: b64_value_def)
  with b show ?thesis
    by (simp add: ascii_def utf8_decode_ascii)
qed

lemma extract_plain_part:
  "data \<noteq> [] \<Longrightarrow> decode_body (JStr data) = Some t \<Longrightarrow>
     extract_text_from_payload (plain_part data) = Inr t"
  by (simp add: extract_text_from_payload_def simple_text_def plain_part_def dict_get_def ascii_def
      del: decode_body.simps)

lemma parse_body_message:
  "extract_text_from_payload (plain_part data) = Inr t \<Longrightarrow>
     parse_message P (body_message data) =
       Inr \<lparr> messageId = JStr (ascii ''m1''), threadId = JStr [], messageTimestamp = JStr [],
             labelIds = JArr [], sender = JStr [], subject = JStr [],
             messageText = JStr (truncate_text t) \<rparr>"
proof -
  assume e: "extract_text_from_payload (plain_part data) = Inr t"
  have p: "dict_get [(ascii ''id'', JStr (ascii ''m1'')), (ascii ''payload'', plain_part data)]
             (ascii ''payload'') (JObj []) = plain_part data"
    by (simp add: dict_get_def ascii_def)
  have h: "py_get (plain_part data) (ascii ''headers'') (JArr []) = Inr (JArr [])"
    by (simp add: plain_part_def dict_get_def ascii_def)
  have ts: "message_timestamp P [(ascii ''id'', JStr (ascii ''m1'')), (ascii ''payload'', plain_part data)]
             = Inr (JStr [])"
    by (simp add: message_timestamp_def dict_get_def ascii_def)
  have g: "\<And>n. get_header_value P (JArr []) n = Inr (JStr [])"
    by (simp add: get_header_value_def)
  have i: "dict_get [(ascii ''id'', JStr (ascii ''m1'')), (ascii ''payload'', plain_part data)]
             (ascii ''id'') (JStr []) = JStr (ascii ''m1'')"
      "dict_get [(ascii ''id'', JStr (ascii ''m1'')), (ascii ''payload'', plain_part data)]
             (ascii ''threadId'') (JStr []) = JStr []"
      "dict_get [(ascii ''id'', JStr (ascii ''m1'')), (ascii ''payload'', plain_part data)]
             (ascii ''labelIds'') (JArr []) = JArr []"
    by (simp_all add: dict_get_def ascii_def)
  show ?thesis
    unfolding body_message_def parse_message.simps p h ts i e
    by (simp add: g)
qed

theorem message_text_truncated_witness:
  "parse_message utc_platform (body_message (concat (replicate 166 (ascii ''QUJD'')) @ ascii ''QUI''))
     = Inr \<lparr> messageId = JStr (ascii ''m1''), threadId = JStr [], messageTimestamp = JStr [],
             labelIds = JArr [], sender = JStr [], subject = JStr [],
             messageText = JStr (concat (replicate 166 (ascii ''ABC'')) @ ascii ''AB'') \<rparr> \<and>
   length (concat (replicate 166 (ascii ''ABC'')) @ ascii ''AB'') = 500 \<and>
   parse_message utc_platform (body_message (concat (replicate 167 (ascii ''QUJD''))))
     = Inr \<lparr> messageId = JStr (ascii ''m1''), threadId = JStr [], messageTimestamp = JStr [],
             labelIds = JArr [], sender = JStr [], subject = JStr [],
             messageText = JStr (take 500 (concat (replicate 167 (ascii ''ABC''))) @ ascii ''...'') \<rparr> \<and>
   length (concat (replicate 167 (ascii ''ABC''))) = 501"
proof -
  let ?D500 = "concat (replicate 166 (ascii ''QUJD'')) @ ascii ''QUI''"
  let ?T500 = "concat (replicate 166 (ascii ''ABC'')) @ ascii ''AB''"
  let ?D501 = "concat (replicate 167 (ascii ''QUJD''))"
  let ?T501 = "concat (replicate 167 (ascii ''ABC''))"
  let ?md = "\<lambda>data. [(ascii ''id'', JStr (ascii ''m1'')), (ascii ''payload'', plain_part data)]"
  have l500: "length ?T500 = 500"
    by (simp add: length_concat ascii_def sum_list_replicate)
  have l501: "length ?T501 = 501"
    by (simp add: length_concat ascii_def sum_list_replicate)
  have pl: "\<And>data. dict_get (?md data) (ascii ''payload'') (JObj []) = plain_part data"
    by (simp add: dict_get_def ascii_def)
  have e500: "extract_text_from_payload (plain_part ?D500) = Inr ?T500"
  proof (rule extract_plain_part)
    show "?D500 \<noteq> []"
      by (simp add: ascii_def)
    show "decode_body (JStr ?D500) = Some ?T500"
      by (rule decode_body_ABC_AB)
  qed
  have e501: "extract_text_from_payload (plain_part ?D501) = Inr ?T501"
  proof (rule extract_plain_part)
    show "?D501 \<noteq> []"
      by (simp add: ascii_def)
    show "decode_body (JStr ?D501) = Some ?T501"
      by (rule decode_body_ABC)
  qed
  note p500 = parse_body_message [OF e500, of utc_platform]
  note p501 = parse_body_message [OF e501, of utc_platform]
  from message_text_truncated [OF p500 [unfolded body_message_def], unfolded pl, OF e500] l500
  have m500: "truncate_text ?T500 = ?T500"
    by simp
  from message_text_truncated [OF p501 [unfolded body_message_def], unfolded pl, OF e501] l501
  have m501: "truncate_text ?T501 = take 500 ?T501 @ ascii ''...''"
    by simp
  from p500 p501 l500 l501 show ?thesis
    by (simp only: m500 m501)
qed

section \<open>The calendar\<close>

text \<open>Month and day of \<open>ord_to_ymd\<close> are a calendar month and a day of it.\<close>

lemma month_cases:
  "1 \<le> (m::nat) \<Longrightarrow> m \<le> 12 \<Longrightarrow>
     m = 1 \<or> m = 2 \<or> m = 3 \<or> m = 4 \<or> m = 5 \<or> m = 6 \<or> m = 7 \<or> m = 8 \<or> m = 9 \<or> m = 10 \<or> m = 11 \<or> m = 12"
  by arith

lemma days_in_month_le: "1 \<le> m \<Longrightarrow> m \<le> 12 \<Longrightarrow> days_in_month y m \<le> 31 \<and> 28 \<le> days_in_month y m"
  using month_cases [of m] by (auto simp: days_in_month_def)

lemma month_day_bounds:
  fixes n :: nat and leapyear :: bool and y :: nat
  assumes n: "n < 365"
    and month_def: "month = (n + 50) div 32"
    and preceding_def:
      "preceding = days_before_month month + (if 2 < month \<and> leapyear then 1 else 0)"
  shows "1 \<le> month \<and> month \<le> 12 \<and>
     (\<not> n < preceding \<longrightarrow> n - preceding + 1 \<le> 31) \<and>
     (n < preceding \<longrightarrow> 2 \<le> month \<and> n - (preceding - days_in_month y (month - 1)) + 1 \<le> 31)"
proof -
  from n have m: "1 \<le> month \<and> month \<le> 12"
    unfolding month_def by arith
  then have c: "month = 1 \<or> month = 2 \<or> month = 3 \<or> month = 4 \<or> month = 5 \<or> month = 6 \<or>
      month = 7 \<or> month = 8 \<or> month = 9 \<or> month = 10 \<or> month = 11 \<or> month = 12"
    using month_cases [of month] by blast
  have r: "32 * month \<le> n + 50 \<and> n + 50 < 32 * month + 32"
    unfolding month_def by arith
  have ge: "\<not> n < preceding \<longrightarrow> n - preceding + 1 \<le> 31"
    using c r n unfolding preceding_def days_before_month_def
    by (elim disjE) auto
  have lt: "n < preceding \<longrightarrow> 2 \<le> month \<and> n - (preceding - days_in_month y (month - 1)) + 1 \<le> 31"
  proof
    assume lt: "n < preceding"
    have m2: "2 \<le> month"
      using c lt unfolding preceding_def days_before_month_def
      by (elim disjE) (simp_all split: if_splits)
    with m have "days_in_month y (month - 1) \<le> 31"
      using days_in_month_le [of "month - 1" y] by simp
    with lt m2 show "2 \<le> month \<and> n - (preceding - days_in_month y (month - 1)) + 1 \<le> 31"
      by arith
  qed
  from m ge lt show ?thesis by blast
qed

lemma ord_to_ymd_bounds:
  assumes a: "ord_to_ymd n = (y, m, d)"
  shows "1 \<le> m \<and> m \<le> 12 \<and> 1 \<le> d \<and> d \<le> 31"
proof -
  define n100 where "n100 = n mod 146097 div 36524"
  define n4 where "n4 = n mod 146097 mod 36524 div 1461"
  define n1 where "n1 = n mod 146097 mod 36524 mod 1461 div 365"
  define r where "r = n mod 146097 mod 36524 mod 1461 mod 365"
  define year where "year = n div 146097 * 400 + n100 * 100 + n4 * 4 + n1 + 1"
  define leapyear where "leapyear = (n1 = 3 \<and> (n4 \<noteq> 24 \<or> n100 = 3))"
  define month where "month = (r + 50) div 32"
  define preceding where
    "preceding = days_before_month month + (if 2 < month \<and> leapyear then 1 else 0)"
  have u: "ord_to_ymd n =
     (if n1 = 4 \<or> n100 = 4 then (year - 1, 12, 31)
      else if r < preceding
        then (year, month - 1, r - (preceding - days_in_month year (month - 1)) + 1)
        else (year, month, r - preceding + 1))"
    by (simp only: ord_to_ymd_def Let_def n100_def n4_def n1_def r_def year_def leapyear_def
        month_def preceding_def)
  have l: "r < 365"
    by (simp add: r_def)
  note b = month_day_bounds [OF l month_def preceding_def, of year]
  show ?thesis
  proof (cases "n1 = 4 \<or> n100 = 4")
    case True
    with a u show ?thesis by simp
  next
    case False
    show ?thesis
    proof (cases "r < preceding")
      case True
      with False a u have "m = month - 1" "d = r - (preceding - days_in_month year (month - 1)) + 1"
        by auto
      with b True show ?thesis by arith
    next
      case ge: False
      with False a u have "m = month" "d = r - preceding + 1"
        by auto
      with b ge show ?thesis by arith
    qed
  qed
qed

text \<open>The year of \<open>ord_to_ymd\<close>, and the day numbers of the years 1000 to 9999.\<close>

lemma ord_to_ymd_year:
  fixes n :: nat
  defines "q \<equiv> n div 146097"
    and "n100 \<equiv> n mod 146097 div 36524"
    and "n4 \<equiv> n mod 146097 mod 36524 div 1461"
    and "n1 \<equiv> n mod 146097 mod 36524 mod 1461 div 365"
  shows "fst (ord_to_ymd n) =
     (if n1 = 4 \<or> n100 = 4 then q * 400 + n100 * 100 + n4 * 4 + n1 + 1 - 1
      else q * 400 + n100 * 100 + n4 * 4 + n1 + 1)"
proof -
  define r where "r = n mod 146097 mod 36524 mod 1461 mod 365"
  define year where "year = q * 400 + n100 * 100 + n4 * 4 + n1 + 1"
  define leapyear where "leapyear = (n1 = 3 \<and> (n4 \<noteq> 24 \<or> n100 = 3))"
  define month where "month = (r + 50) div 32"
  define preceding where
    "preceding = days_before_month month + (if 2 < month \<and> leapyear then 1 else 0)"
  have u: "ord_to_ymd n =
     (if n1 = 4 \<or> n100 = 4 then (year - 1, 12, 31)
      else if r < preceding
        then (year, month - 1, r - (preceding - days_in_month year (month - 1)) + 1)
        else (year, month, r - preceding + 1))"
    by (simp only: ord_to_ymd_def Let_def q_def n100_def n4_def n1_def r_def year_def leapyear_def
        month_def preceding_def)
  show ?thesis
  proof (cases "n1 = 4 \<or> n100 = 4")
    case True
    then show ?thesis
      by (simp only: u if_True fst_conv year_def)
  next
    case False
    then show ?thesis
      by (cases "r < preceding") (simp_all only: u if_True if_False fst_conv year_def)
  qed
qed

lemma year_upper:
  assumes n: "n \<le> 3652058"
  shows "fst (ord_to_ymd n) \<le> 9999"
proof -
  define q where "q = n div 146097"
  define r400 where "r400 = n mod 146097"
  define n100 where "n100 = r400 div 36524"
  define r100 where "r100 = r400 mod 36524"
  define n4 where "n4 = r100 div 1461"
  define r4 where "r4 = r100 mod 1461"
  define n1 where "n1 = r4 div 365"
  have e1: "n = 146097 * q + r400" and b1: "r400 < 146097"
    by (simp_all add: q_def r400_def)
  have e2: "r400 = 36524 * n100 + r100" and b2: "r100 < 36524"
    by (simp_all add: n100_def r100_def)
  have e3: "r100 = 1461 * n4 + r4" and b3: "r4 < 1461"
    by (simp_all add: n4_def r4_def)
  have e4: "365 * n1 \<le> r4"
    by (simp add: n1_def)
  have y: "fst (ord_to_ymd n) \<le> q * 400 + n100 * 100 + n4 * 4 + n1 + 1"
    unfolding ord_to_ymd_year q_def n100_def n4_def n1_def r400_def r100_def r4_def
    by (simp only: split: if_split) simp
  have "q * 400 + n100 * 100 + n4 * 4 + n1 + 1 \<le> 9999"
  proof (cases "q \<le> 23")
    case True
    with e2 b1 e3 b2 e4 b3 show ?thesis by arith
  next
    case q: False
    with n e1 have q24: "q = 24" and r: "r400 \<le> 145730" by arith+
    show ?thesis
    proof (cases "n100 \<le> 2")
      case True
      with q24 e3 b2 e4 b3 show ?thesis by arith
    next
      case False
      with r e2 have c3: "n100 = 3" and r': "r100 \<le> 36158" by arith+
      show ?thesis
      proof (cases "n4 \<le> 23")
        case True
        with q24 c3 e4 b3 show ?thesis by arith
      next
        case False
        with r' e3 have c4: "n4 = 24" and r'': "r4 \<le> 1094" by arith+
        with e4 have "n1 \<le> 2" by arith
        with q24 c3 c4 show ?thesis by arith
      qed
    qed
  qed
  with y show ?thesis by arith
qed

lemma year_lower:
  assumes n: "364877 \<le> n"
  shows "1000 \<le> fst (ord_to_ymd n)"
proof -
  define q where "q = n div 146097"
  define r400 where "r400 = n mod 146097"
  define n100 where "n100 = r400 div 36524"
  define r100 where "r100 = r400 mod 36524"
  define n4 where "n4 = r100 div 1461"
  define r4 where "r4 = r100 mod 1461"
  define n1 where "n1 = r4 div 365"
  have e1: "n = 146097 * q + r400" and b1: "r400 < 146097"
    by (simp_all add: q_def r400_def)
  have e2: "r400 = 36524 * n100 + r100" and b2: "r100 < 36524"
    by (simp_all add: n100_def r100_def)
  have e3: "r100 = 1461 * n4 + r4" and b3: "r4 < 1461"
    by (simp_all add: n4_def r4_def)
  have e4: "365 * n1 \<le> r4" and b4: "r4 < 365 * n1 + 365"
    by (simp_all add: n1_def)
  have y: "fst (ord_to_ymd n) =
     (if n1 = 4 \<or> n100 = 4 then q * 400 + n100 * 100 + n4 * 4 + n1 + 1 - 1
      else q * 400 + n100 * 100 + n4 * 4 + n1 + 1)"
    unfolding ord_to_ymd_year q_def n100_def n4_def n1_def r400_def r100_def r4_def
    by (rule refl)
  have lo: "q * 400 + n100 * 100 + n4 * 4 + n1 \<le> fst (ord_to_ymd n)"
    unfolding y by (cases "n1 = 4 \<or> n100 = 4") simp_all
  show ?thesis
  proof (cases "3 \<le> q")
    case True
    with lo show ?thesis by linarith
  next
    case False
    from False n e1 b1 have q2: "q = 2" by linarith
    from n e1 q2 have r: "72683 \<le> r400" by linarith
    show ?thesis
    proof (cases "2 \<le> n100")
      case True
      with lo q2 show ?thesis by linarith
    next
      case False
      from False r e2 b2 have c1: "n100 = 1" by linarith
      from r e2 c1 have r': "36159 \<le> r100" by linarith
      from r' e3 b3 b2 have c4: "n4 = 24" by linarith
      from r' e3 c4 b2 have r'': "1095 \<le> r4 \<and> r4 < 1460" by linarith
      from r'' e4 b4 have "n1 = 3" by linarith
      then have "fst (ord_to_ymd n) = q * 400 + n100 * 100 + n4 * 4 + n1 + 1"
        unfolding y using c1 by simp
      with q2 c1 c4 \<open>n1 = 3\<close> show ?thesis by linarith
    qed
  qed
qed

section \<open>Formatting\<close>

declare show_nat.simps [simp del]

lemma show_nat_one: "n < 10 \<Longrightarrow> show_nat n = [48 + n]"
  by (subst show_nat.simps) simp

lemma show_nat_more: "10 \<le> n \<Longrightarrow> show_nat n = show_nat (n div 10) @ [48 + n mod 10]"
  by (subst show_nat.simps) simp

lemma show_nat_two: "10 \<le> n \<Longrightarrow> n < 100 \<Longrightarrow> show_nat n = [48 + n div 10, 48 + n mod 10]"
  by (simp add: show_nat_more show_nat_one)

lemma length_pad2: "n < 100 \<Longrightarrow> length (zero_pad 2 (show_nat n)) = 2"
  by (cases "n < 10") (simp_all add: zero_pad_def show_nat_one show_nat_two)

lemma length_show_year: "1000 \<le> y \<Longrightarrow> y \<le> 9999 \<Longrightarrow> length (show_nat y) = 4"
proof -
  assume a: "1000 \<le> y" "y \<le> 9999"
  then have 1: "show_nat y = show_nat (y div 10) @ [48 + y mod 10]"
    by (simp add: show_nat_more)
  from a have 2: "show_nat (y div 10) = show_nat (y div 10 div 10) @ [48 + y div 10 mod 10]"
    by (intro show_nat_more) arith
  from a have "10 \<le> y div 10 div 10" "y div 10 div 10 < 100"
    by arith+
  then have 3: "length (show_nat (y div 10 div 10)) = 2"
    by (simp add: show_nat_two)
  from 1 2 3 show ?thesis by simp
qed

lemma length_year_field:
  "1000 \<le> y \<Longrightarrow> y \<le> 9999 \<Longrightarrow>
     length (if pad_year P then zero_pad 4 (show_nat y) else show_nat y) = 4"
  by (simp add: length_show_year zero_pad_def)

lemma strftime_shape:
  assumes "1000 \<le> y" "y \<le> 9999" "m < 100" "d < 100" "hh < 100" "mm < 100" "ss < 100"
  shows "length (strftime P (y, m, d, hh, mm, ss)) = 19 \<and>
         strftime P (y, m, d, hh, mm, ss) ! 4 = 45 \<and> strftime P (y, m, d, hh, mm, ss) ! 7 = 45 \<and>
         strftime P (y, m, d, hh, mm, ss) ! 10 = 32 \<and>
         strftime P (y, m, d, hh, mm, ss) ! 13 = 58 \<and> strftime P (y, m, d, hh, mm, ss) ! 16 = 58"
proof -
  define Y where "Y = (if pad_year P then zero_pad 4 (show_nat y) else show_nat y)"
  define M where "M = zero_pad 2 (show_nat m)"
  define D where "D = zero_pad 2 (show_nat d)"
  define H where "H = zero_pad 2 (show_nat hh)"
  define Mi where "Mi = zero_pad 2 (show_nat mm)"
  define S where "S = zero_pad 2 (show_nat ss)"
  have l: "length Y = 4" "length M = 2" "length D = 2" "length H = 2" "length Mi = 2" "length S = 2"
    using assms by (simp_all add: Y_def M_def D_def H_def Mi_def S_def length_year_field length_pad2)
  have e: "strftime P (y, m, d, hh, mm, ss) = Y @ [45] @ M @ [45] @ D @ [32] @ H @ [58] @ Mi @ [58] @ S"
    by (simp add: Y_def M_def D_def H_def Mi_def S_def ascii_def)
  show ?thesis
    unfolding e using l by (simp add: nth_append)
qed

lemma local_time_fields:
  assumes "local_time P t = Some (y, m, d, hh, mm, ss)"
  shows "y \<le> 9999 \<and> 1 \<le> m \<and> m \<le> 12 \<and> 1 \<le> d \<and> d \<le> 31 \<and> hh < 24 \<and> mm < 60 \<and> ss < 60"
proof -
  define l where "l = t + tz_offset P t"
  define n where "n = nat (l div 86400 + 719162)"
  define sod where "sod = nat (l mod 86400)"
  obtain y' m' d' where o: "ord_to_ymd n = (y', m', d')"
    by (cases "ord_to_ymd n") auto
  from assms o have e: "y = y'" "m = m'" "d = d'" "hh = sod div 3600" "mm = sod mod 3600 div 60"
      "ss = sod mod 60" and y: "y' \<le> 9999"
    by (auto simp: local_time_def Let_def l_def n_def sod_def split: if_splits)
  have s: "sod < 86400"
    by (simp add: sod_def)
  from s have "sod div 3600 < 24" by arith
  with e y ord_to_ymd_bounds [OF o] show ?thesis by simp
qed

lemma local_time_defined:
  assumes "in_datetime_range P t"
  shows "\<exists>dt. local_time P t = Some dt"
proof -
  define l where "l = t + tz_offset P t"
  define n where "n = nat (l div 86400 + 719162)"
  from assms have r: "- 62135596800 \<le> l" "l \<le> 253402300799"
    by (simp_all add: in_datetime_range_def l_def)
  then have d: "0 \<le> l div 86400 + 719162" "l div 86400 + 719162 \<le> 3652058"
    by arith+
  then have "n \<le> 3652058"
    by (simp add: n_def)
  then have "fst (ord_to_ymd n) \<le> 9999"
    by (rule year_upper)
  with d show ?thesis
    by (cases "ord_to_ymd n") (auto simp: local_time_def Let_def l_def n_def)
qed

lemma local_time_four_digits:
  assumes "four_digit_year P t" and "local_time P t = Some (y, m, d, hh, mm, ss)"
  shows "1000 \<le> y"
proof -
  define l where "l = t + tz_offset P t"
  define n where "n = nat (l div 86400 + 719162)"
  from assms(1) have r: "- 30610224000 \<le> l"
    by (simp add: four_digit_year_def l_def)
  then have d: "364877 \<le> l div 86400 + 719162"
    by arith
  then have "364877 \<le> n"
    by (simp add: n_def)
  then have "1000 \<le> fst (ord_to_ymd n)"
    by (rule year_lower)
  with assms(2) d show ?thesis
    by (cases "ord_to_ymd n") (auto simp: local_time_def Let_def l_def n_def split: if_splits)
qed

section \<open>Parsing a decimal string\<close>

lemma scan_digits_decimal:
  "list_all (\<lambda>c. 48 \<le> c \<and> c \<le> 57) s \<Longrightarrow> s \<noteq> [] \<or> prev \<Longrightarrow>
     scan_digits s prev acc n = Some (foldl (\<lambda>a c. a * 10 + (c - 48)) acc s, n + length s)"
  by (induction s arbitrary: prev acc n) simp_all

lemma dropWhile_digit:
  "s \<noteq> [] \<Longrightarrow> 48 \<le> hd s \<Longrightarrow> dropWhile is_space s = s"
  by (cases s) (auto simp: is_space_def)

lemma strip_decimal: "is_decimal s \<Longrightarrow> strip s = s"
proof -
  assume a: "is_decimal s"
  then have 1: "dropWhile is_space s = s"
    by (cases s) (auto simp: is_decimal_def is_space_def)
  from a have "rev s \<noteq> []" "48 \<le> hd (rev s)"
    by (auto simp: is_decimal_def hd_rev list_all_iff)
  then have "dropWhile is_space (rev s) = rev s"
    by (rule dropWhile_digit)
  with 1 show ?thesis
    by (simp add: strip_def)
qed

lemma int_of_ascii_decimal:
  "is_decimal s \<Longrightarrow> max_str_digits P = 0 \<or> length s \<le> max_str_digits P \<Longrightarrow>
     int_of_ascii P s = Some (int (decimal_value s))"
proof -
  assume a: "is_decimal s" and l: "max_str_digits P = 0 \<or> length s \<le> max_str_digits P"
  from a have h: "s \<noteq> []" "hd s \<noteq> 43" "hd s \<noteq> 45"
    by (cases s; auto simp: is_decimal_def)+
  from a have sc: "scan_digits s False 0 0 = Some (decimal_value s, length s)"
    by (simp add: is_decimal_def decimal_value_def scan_digits_decimal)
  from h sc l show ?thesis
    by (auto simp: int_of_ascii_def Let_def strip_decimal [OF a])
qed

lemma is_decimal_ascii: "is_decimal s \<Longrightarrow> is_ascii s"
  by (auto simp: is_decimal_def is_ascii_def list_all_iff)

lemma py_int_decimal:
  "is_decimal s \<Longrightarrow> max_str_digits P = 0 \<or> length s \<le> max_str_digits P \<Longrightarrow>
     py_int P (JStr s) = Inr (int (decimal_value s))"
  by (simp add: is_decimal_ascii int_of_ascii_decimal)


section \<open>The timestamp entry\<close>

lemma fromtimestamp_defined:
  assumes "in_datetime_range P (ms div 1000)" "in_datetime_range P (ms div 1000 - 86400)"
  shows "\<exists>dt. local_time P (ms div 1000) = Some dt \<and> fromtimestamp_ms P ms = Inr dt"
proof -
  from local_time_defined [OF assms(1)] obtain dt where 1: "local_time P (ms div 1000) = Some dt"
    by blast
  from local_time_defined [OF assms(2)] obtain dt' where 2: "local_time P (ms div 1000 - 86400) = Some dt'"
    by blast
  from 1 2 have "fromtimestamp_ms P ms = Inr dt"
    by (simp add: fromtimestamp_ms_def Let_def)
  with 1 show ?thesis
    by blast
qed

lemma fromtimestamp_result:
  "fromtimestamp_ms P ms = Inr dt \<Longrightarrow> local_time P (ms div 1000) = Some dt"
  by (auto simp: fromtimestamp_ms_def Let_def split: option.splits)

lemma strftime_local_time:
  assumes "local_time P t = Some dt" "four_digit_year P t"
  shows "length (strftime P dt) = 19 \<and> strftime P dt ! 4 = 45 \<and> strftime P dt ! 7 = 45 \<and>
         strftime P dt ! 10 = 32 \<and> strftime P dt ! 13 = 58 \<and> strftime P dt ! 16 = 58"
proof -
  obtain y m d hh mm ss where dt: "dt = (y, m, d, hh, mm, ss)"
    by (cases dt) auto
  from local_time_fields [OF assms(1) [unfolded dt]]
  have f: "y \<le> 9999" "m < 100" "d < 100" "hh < 100" "mm < 100" "ss < 100"
    by auto
  from local_time_four_digits [OF assms(2) assms(1) [unfolded dt]] have y: "1000 \<le> y" .
  from strftime_shape [OF y f] show ?thesis
    unfolding dt .
qed

lemma message_timestamp_absent:
  "map_of message_data (ascii ''internalDate'') = None \<Longrightarrow>
     message_timestamp P message_data = Inr (JStr [])"
  by (simp add: message_timestamp_def dict_get_def)

lemma message_timestamp_falsy:
  "map_of message_data (ascii ''internalDate'') = Some v \<Longrightarrow> \<not> truthy v \<Longrightarrow>
     message_timestamp P message_data = Inr (JStr [])"
  by (simp add: message_timestamp_def dict_get_def)

lemma message_timestamp_carried:
  assumes k: "map_of message_data (ascii ''internalDate'') = Some v" and t: "truthy v"
    and i: "py_int P v = Inr ms"
    and r: "in_datetime_range P (ms div 1000)" "in_datetime_range P (ms div 1000 - 86400)"
  shows "\<exists>dt. local_time P (ms div 1000) = Some dt \<and>
           message_timestamp P message_data = Inr (JStr (strftime P dt))"
proof -
  from fromtimestamp_defined [OF r] obtain dt where
    dt: "local_time P (ms div 1000) = Some dt" "fromtimestamp_ms P ms = Inr dt"
    by blast
  with k t i have "message_timestamp P message_data = Inr (JStr (strftime P dt))"
    by (simp add: message_timestamp_def dict_get_def)
  with dt(1) show ?thesis
    by blast
qed

lemma parse_message_timestamp:
  "parse_message P (JObj message_data) = Inr r \<Longrightarrow>
     message_timestamp P message_data = Inr (messageTimestamp r)"
  by (auto split: sum.splits)

text \<open>
  C2, amended. The \<open>messageTimestamp\<close> entry is the empty string when the payload has
  no \<open>internalDate\<close> or an empty one. When \<open>internalDate\<close> is a string that \<open>int()\<close>
  parses to milliseconds whose local time, and that of one day earlier, lie within the
  years 1 to 9999, the entry is the local date and time of the whole seconds, formatted
  by \<open>strftime\<close>; for a local year from 1000 on this is a string of 19 characters with
  \<open>-\<close> at positions 4 and 7, a space at 10 and \<open>:\<close> at 13 and 16. The record that
  \<open>parse_message\<close> returns holds this entry.
\<close>
theorem message_timestamp_formatted:
  "(map_of message_data (ascii ''internalDate'') = None \<longrightarrow>
      message_timestamp P message_data = Inr (JStr [])) \<and>
   (map_of message_data (ascii ''internalDate'') = Some (JStr []) \<longrightarrow>
      message_timestamp P message_data = Inr (JStr [])) \<and>
   (\<forall>s ms. map_of message_data (ascii ''internalDate'') = Some (JStr s) \<and> s \<noteq> [] \<and>
        py_int P (JStr s) = Inr ms \<and>
        in_datetime_range P (ms div 1000) \<and> in_datetime_range P (ms div 1000 - 86400) \<longrightarrow>
      (\<exists>dt. local_time P (ms div 1000) = Some dt \<and>
         message_timestamp P message_data = Inr (JStr (strftime P dt)) \<and>
         (four_digit_year P (ms div 1000) \<longrightarrow>
            length (strftime P dt) = 19 \<and> strftime P dt ! 4 = 45 \<and> strftime P dt ! 7 = 45 \<and>
            strftime P dt ! 10 = 32 \<and> strftime P dt ! 13 = 58 \<and> strftime P dt ! 16 = 58))) \<and>
   (\<forall>r. parse_message P (JObj message_data) = Inr r \<longrightarrow>
      message_timestamp P message_data = Inr (messageTimestamp r))"
proof (intro conjI allI impI)
  assume "map_of message_data (ascii ''internalDate'') = None"
  then show "message_timestamp P message_data = Inr (JStr [])"
    by (rule message_timestamp_absent)
next
  assume "map_of message_data (ascii ''internalDate'') = Some (JStr [])"
  then show "message_timestamp P message_data = Inr (JStr [])"
    by (rule message_timestamp_falsy) simp
next
  fix s ms
  assume h: "map_of message_data (ascii ''internalDate'') = Some (JStr s) \<and> s \<noteq> [] \<and>
        py_int P (JStr s) = Inr ms \<and>
        in_datetime_range P (ms div 1000) \<and> in_datetime_range P (ms div 1000 - 86400)"
  then have t: "truthy (JStr s)" by simp
  from message_timestamp_carried [OF _ t, of message_data P ms] h
  obtain dt where dt: "local_time P (ms div 1000) = Some dt"
      "message_timestamp P message_data = Inr (JStr (strftime P dt))"
    by blast
  from strftime_local_time [OF dt(1)] dt
  show "\<exists>dt. local_time P (ms div 1000) = Some dt \<and>
         message_timestamp P message_data = Inr (JStr (strftime P dt)) \<and>
         (four_digit_year P (ms div 1000) \<longrightarrow>
            length (strftime P dt) = 19 \<and> strftime P dt ! 4 = 45 \<and> strftime P dt ! 7 = 45 \<and>
            strftime P dt ! 10 = 32 \<and> strftime P dt ! 13 = 58 \<and> strftime P dt ! 16 = 58)"
    by blast
next
  fix r
  assume "parse_message P (JObj message_data) = Inr r"
  then show "message_timestamp P message_data = Inr (messageTimestamp r)"
    by (rule parse_message_timestamp)
qed

text \<open>
  C2 as stated fails on an \<open>internalDate\<close> that is not a number: the claim gives the
  empty string, the code raises the ValueError of \<open>int()\<close>.
\<close>

theorem unparsable_timestamp_counterexample:
  "parse_message utc_platform
     (JObj [(ascii ''id'', JStr (ascii ''m1'')), (ascii ''internalDate'', JStr (ascii ''abc''))])
   = Inl ValueError"
  by code_simp


lemma parse_message_no_payload:
  "map_of message_data (ascii ''payload'') = None \<Longrightarrow>
   message_timestamp P message_data = Inr ts \<Longrightarrow>
     parse_message P (JObj message_data) =
       Inr \<lparr> messageId = dict_get message_data (ascii ''id'') (JStr []),
             threadId = dict_get message_data (ascii ''threadId'') (JStr []),
             messageTimestamp = ts,
             labelIds = dict_get message_data (ascii ''labelIds'') (JArr []),
             sender = JStr [], subject = JStr [], messageText = JStr [] \<rparr>"
  by (simp add: dict_get_def get_header_value_def extract_text_from_payload_def truncate_text_def)

lemma local_time_example:
  "local_time utc_platform 1672531200 = Some (2023, 1, 1, 0, 0, 0)"
  by (simp add: local_time_def utc_platform_def ord_to_ymd_def Let_def days_before_month_def
      days_in_month_def)

lemma strftime_example:
  "strftime utc_platform (2023, 1, 1, 0, 0, 0) = ascii ''2023-01-01 00:00:00''"
  by (simp add: utc_platform_def show_nat_more show_nat_one zero_pad_def ascii_def)

theorem message_timestamp_formatted_witness:
  "message_timestamp utc_platform
     [(ascii ''id'', JStr (ascii ''m1'')), (ascii ''internalDate'', JStr (ascii ''1672531200000''))]
     = Inr (JStr (ascii ''2023-01-01 00:00:00'')) \<and>
   length (ascii ''2023-01-01 00:00:00'') = 19 \<and>
   message_timestamp utc_platform [(ascii ''id'', JStr (ascii ''m1''))] = Inr (JStr [])"
proof -
  let ?s = "ascii ''1672531200000''"
  let ?md = "[(ascii ''id'', JStr (ascii ''m1'')), (ascii ''internalDate'', JStr ?s)]"
  let ?mdz = "[(ascii ''id'', JStr (ascii ''m1''))]"
  have k: "map_of ?md (ascii ''internalDate'') = Some (JStr ?s)"
    by (simp add: ascii_def)
  have k0: "map_of ?mdz (ascii ''internalDate'') = None"
    by (simp add: ascii_def)
  have ne: "?s \<noteq> []"
    by (simp add: ascii_def)
  have d: "is_decimal ?s" "length ?s \<le> max_str_digits utc_platform"
    by (simp_all add: is_decimal_def ascii_def utc_platform_def)
  have v: "int (decimal_value ?s) = 1672531200000"
    by (simp add: decimal_value_def ascii_def)
  from d have "py_int utc_platform (JStr ?s) = Inr (int (decimal_value ?s))"
    by (intro py_int_decimal disjI2)
  then have i: "py_int utc_platform (JStr ?s) = Inr 1672531200000"
    by (simp only: v)
  have r: "in_datetime_range utc_platform (1672531200000 div 1000)"
      "in_datetime_range utc_platform (1672531200000 div 1000 - 86400)"
      "four_digit_year utc_platform (1672531200000 div 1000)"
    by (simp_all add: in_datetime_range_def four_digit_year_def utc_platform_def)
  have lt: "local_time utc_platform (1672531200000 div 1000) = Some (2023, 1, 1, 0, 0, 0)"
    using local_time_example by simp
  note t = message_timestamp_formatted [of ?md utc_platform]
  from t k ne i r obtain dt where
    dt: "local_time utc_platform (1672531200000 div 1000) = Some dt"
      "message_timestamp utc_platform ?md = Inr (JStr (strftime utc_platform dt))"
      "length (strftime utc_platform dt) = 19"
    by blast
  from dt(1) lt have e: "dt = (2023, 1, 1, 0, 0, 0)"
    by (simp only: option.inject)
  from dt(2) have 1: "message_timestamp utc_platform ?md = Inr (JStr (ascii ''2023-01-01 00:00:00''))"
    by (simp only: e strftime_example)
  from dt(3) have 2: "length (ascii ''2023-01-01 00:00:00'') = 19"
    by (simp only: e strftime_example)
  from message_timestamp_formatted [of ?mdz utc_platform] k0
  have 3: "message_timestamp utc_platform ?mdz = Inr (JStr [])"
    by blast
  from 1 2 3 show ?thesis
    by (intro conjI)
qed

section \<open>Sender and subject\<close>

lemma header_loop_result:
  "header_loop P hs name = Inr v \<Longrightarrow> v = first_header_value P hs name"
proof (induction hs)
  case Nil
  then show ?case by (simp add: first_header_value_def)
next
  case (Cons h hs)
  show ?case
  proof (cases h)
    case (JObj d)
    show ?thesis
    proof (cases "dict_get d (ascii ''name'') (JStr [])")
      case (JStr n)
      with JObj Cons show ?thesis
        by (auto simp: first_header_value_def split: if_splits)
    qed (use JObj Cons.prems in simp_all)
  qed (use Cons.prems in simp_all)
qed

lemma get_header_value_result:
  "get_header_value P headers name = Inr v \<Longrightarrow> py_iter headers = Inr hs \<Longrightarrow>
     v = first_header_value P hs name"
  by (simp add: get_header_value_def header_loop_result)

text \<open>
  C8. In every record that \<open>parse_message\<close> returns, \<open>sender\<close> and \<open>subject\<close> are
  the value of the first header of the payload's header list whose name equals
  \<open>From\<close>, respectively \<open>Subject\<close>, when both are lower-cased, and the empty string
  when no header matches.
\<close>
theorem sender_subject_first_match:
  "parse_message P (JObj message_data) = Inr r \<Longrightarrow>
     sender r = first_header_value P (message_headers message_data) (ascii ''From'') \<and>
     subject r = first_header_value P (message_headers message_data) (ascii ''Subject'')"
proof -
  assume p: "parse_message P (JObj message_data) = Inr r"
  then obtain headers where
    h: "py_get (dict_get message_data (ascii ''payload'') (JObj [])) (ascii ''headers'') (JArr []) = Inr headers"
    by (auto split: sum.splits)
  from p h have f: "get_header_value P headers (ascii ''From'') = Inr (sender r)"
    and s: "get_header_value P headers (ascii ''Subject'') = Inr (subject r)"
    by (auto split: sum.splits)
  from h obtain payload where pl: "dict_get message_data (ascii ''payload'') (JObj []) = JObj payload"
    and hd: "headers = dict_get payload (ascii ''headers'') (JArr [])"
    by (cases "dict_get message_data (ascii ''payload'') (JObj [])") auto
  from f obtain hs where it: "py_iter headers = Inr hs"
    by (auto simp: get_header_value_def split: sum.splits)
  from pl hd it have m: "message_headers message_data = hs"
    by (simp add: message_headers_def)
  from get_header_value_result [OF f it] get_header_value_result [OF s it] m
  show ?thesis by simp
qed

theorem sender_subject_first_match_witness:
  "parse_message utc_platform
     (JObj [(ascii ''id'', JStr (ascii ''m1'')),
            (ascii ''payload'',
             JObj [(ascii ''headers'',
                    JArr [header ''Date'' ''today'', header ''SUBJECT'' ''Hi'',
                          header ''from'' ''a@b.com'', header ''From'' ''c@d.com'',
                          header ''Subject'' ''Again''])])])
     = Inr \<lparr> messageId = JStr (ascii ''m1''), threadId = JStr [], messageTimestamp = JStr [],
             labelIds = JArr [], sender = JStr (ascii ''a@b.com''), subject = JStr (ascii ''Hi''),
             messageText = JStr [] \<rparr> \<and>
   first_header_value utc_platform
     [header ''Date'' ''today'', header ''SUBJECT'' ''Hi'', header ''from'' ''a@b.com'',
      header ''From'' ''c@d.com'', header ''Subject'' ''Again'']
     (ascii ''From'') = JStr (ascii ''a@b.com'') \<and>
   first_header_value utc_platform [header ''Date'' ''today''] (ascii ''From'') = JStr []"
proof -
  let ?hs = "[header ''Date'' ''today'', header ''SUBJECT'' ''Hi'', header ''from'' ''a@b.com'',
          header ''From'' ''c@d.com'', header ''Subject'' ''Again'']"
  let ?md = "[(ascii ''id'', JStr (ascii ''m1'')),
              (ascii ''payload'', JObj [(ascii ''headers'', JArr ?hs)])]"
  let ?r = "\<lparr> messageId = JStr (ascii ''m1''), threadId = JStr [], messageTimestamp = JStr [],
             labelIds = JArr [], sender = JStr (ascii ''a@b.com''), subject = JStr (ascii ''Hi''),
             messageText = JStr [] \<rparr>"
  have p: "parse_message utc_platform (JObj ?md) = Inr ?r"
    by code_simp
  have m: "message_headers ?md = ?hs"
    by (simp add: message_headers_def dict_get_def ascii_def)
  have n: "first_header_value utc_platform [header ''Date'' ''today''] (ascii ''From'') = JStr []"
    by code_simp
  from sender_subject_first_match [OF p]
  have "sender ?r = first_header_value utc_platform (message_headers ?md) (ascii ''From'')"
    by (rule conjunct1)
  then have "first_header_value utc_platform ?hs (ascii ''From'') = JStr (ascii ''a@b.com'')"
    by (simp only: m message_record.simps)
  with p n show ?thesis
    by (intro conjI)
qed

section \<open>Totality on well-formed messages\<close>

lemma dict_get_shape:
  "field_ok d k ok \<Longrightarrow> ok dflt \<Longrightarrow> ok (dict_get d k dflt)"
  by (simp add: field_ok_def dict_get_def split: option.splits)

lemma header_loop_ok:
  "list_all header_ok hs \<Longrightarrow> \<exists>v. header_loop P hs name = Inr v \<and> is_str v"
proof (induction hs)
  case Nil
  then show ?case by simp
next
  case (Cons h hs)
  then obtain d where h: "h = JObj d" and n: "field_ok d (ascii ''name'') is_str"
    and v: "field_ok d (ascii ''value'') is_str"
    by (cases h) auto
  from dict_get_shape [OF n, of "JStr []"] obtain nm where nm: "dict_get d (ascii ''name'') (JStr []) = JStr nm"
    by (cases "dict_get d (ascii ''name'') (JStr [])") auto
  from dict_get_shape [OF v, of "JStr []"] have vs: "is_str (dict_get d (ascii ''value'') (JStr []))"
    by simp
  from Cons h nm vs show ?case
    by simp
qed

lemma get_header_value_ok:
  "headers_ok headers \<Longrightarrow> \<exists>v. get_header_value P headers name = Inr v \<and> is_str v"
  by (cases headers) (simp_all add: get_header_value_def header_loop_ok)

lemma simple_text_ok:
  "field_ok d (ascii ''body'') is_dict \<Longrightarrow> \<exists>t. simple_text (JObj d) = Inr t"
proof -
  assume b: "field_ok d (ascii ''body'') is_dict"
  from dict_get_shape [OF b, of "JObj []"] obtain bd where
    bd: "dict_get d (ascii ''body'') (JObj []) = JObj bd"
    by (cases "dict_get d (ascii ''body'') (JObj [])") auto
  show ?thesis
    by (simp add: simple_text_def bd split: option.splits del: decode_body.simps)
qed

lemma extract_text_ok:
  "payload_ok payload \<Longrightarrow> \<exists>t. extract_text_from_payload payload = Inr t"
proof -
  assume ok: "payload_ok payload"
  then obtain d where p: "payload = JObj d" and pk: "field_ok d (ascii ''parts'') parts_ok"
    and bk: "field_ok d (ascii ''body'') is_dict"
    by (cases payload) auto
  show ?thesis
  proof (cases "map_of d (ascii ''parts'')")
    case None
    with simple_text_ok [OF bk] show ?thesis
      by (auto simp: p extract_text_from_payload_def)
  next
    case (Some v)
    with pk obtain ps where v: "v = JArr ps" and ps: "list_all part_ok ps"
      by (cases v) (auto simp: field_ok_def)
    from Some v ps show ?thesis
      by (simp add: p extract_parts parts_loop_map_filter)
  qed
qed

lemma message_timestamp_ok:
  "field_ok message_data (ascii ''internalDate'') (timestamp_ok P) \<Longrightarrow>
     \<exists>ts. message_timestamp P message_data = Inr ts \<and> is_str ts"
proof (cases "map_of message_data (ascii ''internalDate'')")
  case None
  then show ?thesis
    by (simp add: message_timestamp_absent)
next
  case (Some v)
  assume "field_ok message_data (ascii ''internalDate'') (timestamp_ok P)"
  with Some have t: "timestamp_ok P v"
    by (simp add: field_ok_def)
  then obtain s where s: "v = JStr s"
    by (cases v) auto
  show ?thesis
  proof (cases "s = []")
    case True
    with Some s show ?thesis
      by (simp add: message_timestamp_falsy)
  next
    case False
    with t s obtain ms where i: "py_int P v = Inr ms"
      and r: "in_datetime_range P (ms div 1000)" "in_datetime_range P (ms div 1000 - 86400)"
      by (cases "py_int P (JStr s)") auto
    from False s have tr: "truthy v" by simp
    from message_timestamp_carried [OF Some tr i r] show ?thesis
      by auto
  qed
qed

lemma simple_text_value:
  "field_ok d (ascii ''body'') is_dict \<Longrightarrow>
     simple_text (JObj d) = Inr (case part_text (JObj d) of None \<Rightarrow> [] | Some t \<Rightarrow> t)"
proof -
  assume b: "field_ok d (ascii ''body'') is_dict"
  from dict_get_shape [OF b, of "JObj []"] obtain bd where
    bd: "dict_get d (ascii ''body'') (JObj []) = JObj bd"
    by (cases "dict_get d (ascii ''body'') (JObj [])") auto
  show ?thesis
    by (simp add: simple_text_def part_text_def bd split: option.splits del: decode_body.simps)
qed

lemma extract_simple_value:
  assumes "payload_ok (JObj d)" "map_of d (ascii ''parts'') = None"
  shows "extract_text_from_payload (JObj d) =
           Inr (case part_text (JObj d) of None \<Rightarrow> [] | Some t \<Rightarrow> t)"
proof (cases "d = []")
  case True
  then show ?thesis
    by (simp add: extract_text_from_payload_def part_text_def dict_get_def)
next
  case False
  from assms(1) have "field_ok d (ascii ''body'') is_dict"
    by simp
  from simple_text_value [OF this] False assms(2) show ?thesis
    by (simp add: extract_text_from_payload_def)
qed

lemma extract_multipart_value:
  assumes "payload_ok (JObj d)" "map_of d (ascii ''parts'') = Some (JArr ps)"
  shows "extract_text_from_payload (JObj d) =
           Inr (join (ascii [CHR 0x0A]) (List.map_filter part_text ps))"
proof -
  from assms have "list_all part_ok ps"
    by (simp add: field_ok_def)
  with assms(2) show ?thesis
    by (simp add: extract_parts parts_loop_map_filter)
qed

lemma parse_message_fields:
  assumes p: "parse_message P (JObj message_data) = Inr r"
  shows "messageId r = dict_get message_data (ascii ''id'') (JStr [])"
    and "threadId r = dict_get message_data (ascii ''threadId'') (JStr [])"
    and "labelIds r = dict_get message_data (ascii ''labelIds'') (JArr [])"
    and "\<exists>t. extract_text_from_payload (dict_get message_data (ascii ''payload'') (JObj [])) = Inr t \<and>
             messageText r = JStr (truncate_text t)"
  using p by (auto split: sum.splits)

lemma parse_message_headers:
  assumes p: "parse_message P (JObj message_data) = Inr r"
  shows "sender r = first_header_value P (message_headers message_data) (ascii ''From'') \<and>
     subject r = first_header_value P (message_headers message_data) (ascii ''Subject'')"
proof -
  from p obtain headers where
    h: "py_get (dict_get message_data (ascii ''payload'') (JObj [])) (ascii ''headers'') (JArr []) = Inr headers"
    by (auto split: sum.splits)
  from p h have f: "get_header_value P headers (ascii ''From'') = Inr (sender r)"
    and s: "get_header_value P headers (ascii ''Subject'') = Inr (subject r)"
    by (auto split: sum.splits)
  from h obtain payload where pl: "dict_get message_data (ascii ''payload'') (JObj []) = JObj payload"
    and hd: "headers = dict_get payload (ascii ''headers'') (JArr [])"
    by (cases "dict_get message_data (ascii ''payload'') (JObj [])") auto
  from f obtain hs where it: "py_iter headers = Inr hs"
    by (auto simp: get_header_value_def split: sum.splits)
  from pl hd it have m: "message_headers message_data = hs"
    by (simp add: message_headers_def)
  from get_header_value_result [OF f it] get_header_value_result [OF s it] m
  show ?thesis by simp
qed

text \<open>
  C1, amended. For every well-formed message \<open>parse_message\<close> raises no error and
  returns a record whose seven fields are present with a value of the right type (a
  string, for \<open>labelIds\<close> a list). A field whose source is absent is the empty string,
  respectively the empty list: \<open>messageId\<close>, \<open>threadId\<close>, \<open>messageTimestamp\<close> and
  \<open>labelIds\<close> without their key (with it, the first, second and last are the value
  of the key); \<open>sender\<close> and \<open>subject\<close> without a payload or without a matching header
  (they are the value of the first matching header otherwise); \<open>messageText\<close> without
  a payload, for a payload without parts that is not \<open>text/plain\<close> or has no body data
  or data that does not decode, and for a parts list in which no part contributes.
  In the other cases \<open>messageText\<close> is the truncated text of the body or of the parts.
\<close>

theorem parse_message_well_formed:
  "well_formed P message_data \<Longrightarrow>
     \<exists>r. parse_message P (JObj message_data) = Inr r \<and>
       is_str (messageId r) \<and> is_str (threadId r) \<and> is_str (messageTimestamp r) \<and>
       is_list (labelIds r) \<and> is_str (sender r) \<and> is_str (subject r) \<and>
       is_str (messageText r) \<and>
       (map_of message_data (ascii ''id'') = None \<longrightarrow> messageId r = JStr []) \<and>
       (map_of message_data (ascii ''threadId'') = None \<longrightarrow> threadId r = JStr []) \<and>
       (map_of message_data (ascii ''internalDate'') = None \<longrightarrow> messageTimestamp r = JStr []) \<and>
       (map_of message_data (ascii ''labelIds'') = None \<longrightarrow> labelIds r = JArr []) \<and>
       (map_of message_data (ascii ''payload'') = None \<longrightarrow>
          sender r = JStr [] \<and> subject r = JStr [] \<and> messageText r = JStr []) \<and>
       (\<forall>v. map_of message_data (ascii ''id'') = Some v \<longrightarrow> messageId r = v) \<and>
       (\<forall>v. map_of message_data (ascii ''threadId'') = Some v \<longrightarrow> threadId r = v) \<and>
       (\<forall>v. map_of message_data (ascii ''labelIds'') = Some v \<longrightarrow> labelIds r = v) \<and>
       sender r = first_header_value P (message_headers message_data) (ascii ''From'') \<and>
       subject r = first_header_value P (message_headers message_data) (ascii ''Subject'') \<and>
       (find (header_matches P (ascii ''From'')) (message_headers message_data) = None \<longrightarrow>
          sender r = JStr []) \<and>
       (find (header_matches P (ascii ''Subject'')) (message_headers message_data) = None \<longrightarrow>
          subject r = JStr []) \<and>
       (\<forall>pd. map_of message_data (ascii ''payload'') = Some (JObj pd) \<and>
             map_of pd (ascii ''parts'') = None \<longrightarrow>
          messageText r =
            JStr (truncate_text (case part_text (JObj pd) of None \<Rightarrow> [] | Some t \<Rightarrow> t))) \<and>
       (\<forall>pd. map_of message_data (ascii ''payload'') = Some (JObj pd) \<and>
             map_of pd (ascii ''parts'') = None \<and> part_text (JObj pd) = None \<longrightarrow>
          messageText r = JStr []) \<and>
       (\<forall>pd ps. map_of message_data (ascii ''payload'') = Some (JObj pd) \<and>
             map_of pd (ascii ''parts'') = Some (JArr ps) \<longrightarrow>
          messageText r =
            JStr (truncate_text (join (ascii [CHR 0x0A]) (List.map_filter part_text ps)))) \<and>
       (\<forall>pd ps. map_of message_data (ascii ''payload'') = Some (JObj pd) \<and>
             map_of pd (ascii ''parts'') = Some (JArr ps) \<and>
             list_all (\<lambda>p. part_text p = None) ps \<longrightarrow>
          messageText r = JStr [])"
proof -
  assume wf: "well_formed P message_data"
  define payload where "payload = dict_get message_data (ascii ''payload'') (JObj [])"
  from wf have pk: "field_ok message_data (ascii ''payload'') payload_ok"
    by (simp add: well_formed_def)
  have "payload_ok (JObj [])"
    by (simp add: field_ok_def)
  with pk have po: "payload_ok payload"
    unfolding payload_def by (rule dict_get_shape)
  then obtain pd where pd: "payload = JObj pd" and hk: "field_ok pd (ascii ''headers'') headers_ok"
    by (cases payload) auto
  define headers where "headers = dict_get pd (ascii ''headers'') (JArr [])"
  have "headers_ok (JArr [])" by simp
  with hk have ho: "headers_ok headers"
    unfolding headers_def by (rule dict_get_shape)
  from get_header_value_ok [OF ho] obtain f where
    f: "get_header_value P headers (ascii ''From'') = Inr f" "is_str f"
    by blast
  from get_header_value_ok [OF ho] obtain sj where
    sj: "get_header_value P headers (ascii ''Subject'') = Inr sj" "is_str sj"
    by blast
  from extract_text_ok [OF po] obtain t where t: "extract_text_from_payload payload = Inr t"
    by blast
  from wf have "field_ok message_data (ascii ''internalDate'') (timestamp_ok P)"
    by (simp add: well_formed_def)
  from message_timestamp_ok [OF this] obtain ts where
    ts: "message_timestamp P message_data = Inr ts" "is_str ts"
    by blast
  define r where "r = \<lparr> messageId = dict_get message_data (ascii ''id'') (JStr []),
                threadId = dict_get message_data (ascii ''threadId'') (JStr []),
                messageTimestamp = ts,
                labelIds = dict_get message_data (ascii ''labelIds'') (JArr []),
                sender = f, subject = sj, messageText = JStr (truncate_text t) \<rparr>"
  have p: "parse_message P (JObj message_data) = Inr r"
    using f sj t ts
    by (simp add: payload_def [symmetric] pd headers_def [symmetric] r_def)
  from wf have shapes: "is_str (messageId r)" "is_str (threadId r)" "is_list (labelIds r)"
    by (simp_all add: r_def well_formed_def dict_get_shape)
  have dflt: "map_of message_data (ascii ''id'') = None \<longrightarrow> messageId r = JStr []"
      "map_of message_data (ascii ''threadId'') = None \<longrightarrow> threadId r = JStr []"
      "map_of message_data (ascii ''labelIds'') = None \<longrightarrow> labelIds r = JArr []"
    by (simp_all add: r_def dict_get_def)
  have copied: "\<forall>v. map_of message_data (ascii ''id'') = Some v \<longrightarrow> messageId r = v"
      "\<forall>v. map_of message_data (ascii ''threadId'') = Some v \<longrightarrow> threadId r = v"
      "\<forall>v. map_of message_data (ascii ''labelIds'') = Some v \<longrightarrow> labelIds r = v"
    by (simp_all add: r_def dict_get_def)
  have tsd: "map_of message_data (ascii ''internalDate'') = None \<longrightarrow> messageTimestamp r = JStr []"
    using ts by (auto simp: r_def message_timestamp_absent)
  have pld: "map_of message_data (ascii ''payload'') = None \<longrightarrow>
          sender r = JStr [] \<and> subject r = JStr [] \<and> messageText r = JStr []"
  proof
    assume n: "map_of message_data (ascii ''payload'') = None"
    note q = parse_message_no_payload [OF n ts(1), unfolded p]
    from q show "sender r = JStr [] \<and> subject r = JStr [] \<and> messageText r = JStr []"
      by simp
  qed
  note hv = parse_message_headers [OF p]
  have hv0: "find (header_matches P (ascii ''From'')) (message_headers message_data) = None \<longrightarrow>
          sender r = JStr []"
      "find (header_matches P (ascii ''Subject'')) (message_headers message_data) = None \<longrightarrow>
          subject r = JStr []"
    using hv by (simp_all add: first_header_value_def)
  have mt: "messageText r = JStr (truncate_text t)"
    by (simp add: r_def)
  have simple: "messageText r =
            JStr (truncate_text (case part_text (JObj d) of None \<Rightarrow> [] | Some t \<Rightarrow> t))"
    if "map_of message_data (ascii ''payload'') = Some (JObj d) \<and> map_of d (ascii ''parts'') = None"
    for d
  proof -
    from that have e: "payload = JObj d"
      by (simp add: payload_def dict_get_def)
    from extract_simple_value [OF po [unfolded e]] that t [unfolded e] mt show ?thesis
      by simp
  qed
  have multi: "messageText r =
            JStr (truncate_text (join (ascii [CHR 0x0A]) (List.map_filter part_text ps)))"
    if "map_of message_data (ascii ''payload'') = Some (JObj d) \<and>
        map_of d (ascii ''parts'') = Some (JArr ps)"
    for d ps
  proof -
    from that have e: "payload = JObj d"
      by (simp add: payload_def dict_get_def)
    from extract_multipart_value [OF po [unfolded e]] that t [unfolded e] mt show ?thesis
      by simp
  qed
  have simple0: "messageText r = JStr []"
    if "map_of message_data (ascii ''payload'') = Some (JObj d) \<and>
        map_of d (ascii ''parts'') = None \<and> part_text (JObj d) = None"
    for d
    using simple [of d] that by (simp add: truncate_text_def)
  have multi0: "messageText r = JStr []"
    if "map_of message_data (ascii ''payload'') = Some (JObj d) \<and>
        map_of d (ascii ''parts'') = Some (JArr ps) \<and> list_all (\<lambda>p. part_text p = None) ps"
    for d ps
    using multi [of d ps] that by (simp add: truncate_text_def map_filter_all_none)
  show ?thesis
  proof (intro exI [of _ r] conjI allI impI)
    show "parse_message P (JObj message_data) = Inr r" by (rule p)
    show "is_str (messageId r)" "is_str (threadId r)" "is_list (labelIds r)"
      by (rule shapes)+
    show "is_str (messageTimestamp r)" "is_str (sender r)" "is_str (subject r)"
        "is_str (messageText r)"
      using ts(2) f(2) sj(2) by (simp_all add: r_def)
  qed (use dflt tsd pld copied hv hv0 simple simple0 multi multi0 in \<open>blast+\<close>)
qed

text \<open>
  C1 as stated fails on a message whose \<open>payload\<close> is \<open>null\<close>: \<open>get\<close> returns the
  \<open>None\<close> that is there, not the default, and \<open>None\<close> has no \<open>get\<close>.
\<close>

theorem null_payload_counterexample:
  "parse_message utc_platform
     (JObj [(ascii ''id'', JStr (ascii ''m1'')), (ascii ''payload'', JNull)])
   = Inl AttributeError"
  by code_simp


theorem parse_message_well_formed_witness:
  "well_formed utc_platform
     [(ascii ''id'', JStr (ascii ''msg_incomplete_98765'')),
      (ascii ''threadId'', JStr (ascii ''thread_incomplete_54321'')),
      (ascii ''payload'',
       JObj [(ascii ''headers'',
              JArr [header ''From'' ''incomplete.sender@example.com'',
                    header ''Date'' ''Mon, 2 Jan 2023 12:00:00 +0000'']),
             (ascii ''mimeType'', JStr (ascii ''text/html''))])] \<and>
   parse_message utc_platform
     (JObj [(ascii ''id'', JStr (ascii ''msg_incomplete_98765'')),
      (ascii ''threadId'', JStr (ascii ''thread_incomplete_54321'')),
      (ascii ''payload'',
       JObj [(ascii ''headers'',
              JArr [header ''From'' ''incomplete.sender@example.com'',
                    header ''Date'' ''Mon, 2 Jan 2023 12:00:00 +0000'']),
             (ascii ''mimeType'', JStr (ascii ''text/html''))])])
   = Inr \<lparr> messageId = JStr (ascii ''msg_incomplete_98765''),
           threadId = JStr (ascii ''thread_incomplete_54321''),
           messageTimestamp = JStr [], labelIds = JArr [],
           sender = JStr (ascii ''incomplete.sender@example.com''),
           subject = JStr [], messageText = JStr [] \<rparr> \<and>
   well_formed utc_platform
     [(ascii ''id'', JStr (ascii ''m2'')),
      (ascii ''payload'', JObj [(ascii ''mimeType'', JStr (ascii ''text/plain''))])] \<and>
   part_text (JObj [(ascii ''mimeType'', JStr (ascii ''text/plain''))]) = None \<and>
   parse_message utc_platform
     (JObj [(ascii ''id'', JStr (ascii ''m2'')),
            (ascii ''payload'', JObj [(ascii ''mimeType'', JStr (ascii ''text/plain''))])])
   = Inr \<lparr> messageId = JStr (ascii ''m2''), threadId = JStr [], messageTimestamp = JStr [],
           labelIds = JArr [], sender = JStr [], subject = JStr [], messageText = JStr [] \<rparr>"
proof -
  let ?md = "[(ascii ''id'', JStr (ascii ''msg_incomplete_98765'')),
      (ascii ''threadId'', JStr (ascii ''thread_incomplete_54321'')),
      (ascii ''payload'',
       JObj [(ascii ''headers'',
              JArr [header ''From'' ''incomplete.sender@example.com'',
                    header ''Date'' ''Mon, 2 Jan 2023 12:00:00 +0000'']),
             (ascii ''mimeType'', JStr (ascii ''text/html''))])]"
  let ?R = "\<lparr> messageId = JStr (ascii ''msg_incomplete_98765''),
           threadId = JStr (ascii ''thread_incomplete_54321''),
           messageTimestamp = JStr [], labelIds = JArr [],
           sender = JStr (ascii ''incomplete.sender@example.com''),
           subject = JStr [], messageText = JStr [] \<rparr>"
  let ?pd = "[(ascii ''mimeType'', JStr (ascii ''text/plain''))]"
  let ?mdb = "[(ascii ''id'', JStr (ascii ''m2'')), (ascii ''payload'', JObj ?pd)]"
  let ?Rb = "\<lparr> messageId = JStr (ascii ''m2''), threadId = JStr [], messageTimestamp = JStr [],
           labelIds = JArr [], sender = JStr [], subject = JStr [], messageText = JStr [] \<rparr>"
  have wf: "well_formed utc_platform ?md"
    by code_simp
  have p: "parse_message utc_platform (JObj ?md) = Inr ?R"
    by code_simp
  from parse_message_well_formed [OF wf] obtain r where
    r: "parse_message utc_platform (JObj ?md) = Inr r"
    by (elim exE conjE) (rule that)
  from r [unfolded p] have "r = ?R"
    by (simp only: sum.inject)
  with r have 1: "parse_message utc_platform (JObj ?md) = Inr ?R"
    by (simp only:)
  have wfb: "well_formed utc_platform ?mdb"
    by code_simp
  have pt: "part_text (JObj ?pd) = None"
    by code_simp
  have "map_of ?mdb (ascii ''payload'') = Some (JObj ?pd) \<and> map_of ?pd (ascii ''parts'') = None"
    by (simp add: ascii_def)
  with pt have k: "map_of ?mdb (ascii ''payload'') = Some (JObj ?pd) \<and>
           map_of ?pd (ascii ''parts'') = None \<and> part_text (JObj ?pd) = None"
    by (intro conjI) (erule conjunct1, erule conjunct2, assumption)
  have pb: "parse_message utc_platform (JObj ?mdb) = Inr ?Rb"
    by code_simp
  from parse_message_well_formed [OF wfb] obtain rb where
    rb: "parse_message utc_platform (JObj ?mdb) = Inr rb"
    and c: "\<forall>pd. map_of ?mdb (ascii ''payload'') = Some (JObj pd) \<and>
             map_of pd (ascii ''parts'') = None \<and> part_text (JObj pd) = None \<longrightarrow>
          messageText rb = JStr []"
    by (elim exE conjE) (rule that)
  from c [rule_format, OF k] have mt: "messageText rb = JStr []" .
  from rb [unfolded pb] have "rb = ?Rb"
    by (simp only: sum.inject)
  with rb have 2: "parse_message utc_platform (JObj ?mdb) = Inr ?Rb"
    by (simp only:)
  from wf 1 wfb pt 2 show ?thesis
    by (intro conjI)
qed

section \<open>The orchestrator\<close>

lemma collect_map_Inr: "collect (map Inr xs) = Inr xs"
  by (induction xs) simp_all

lemma collect_Inr_D: "collect rs = Inr xs \<Longrightarrow> rs = map Inr xs"
proof (induction rs arbitrary: xs)
  case Nil
  then show ?case by auto
next
  case (Cons r rs)
  show ?case
  proof (cases r)
    case (Inl e)
    with Cons.prems show ?thesis by simp
  next
    case (Inr x)
    with Cons.prems obtain ys where ys: "collect rs = Inr ys" and xs: "xs = x # ys"
      by (cases "collect rs") auto
    from Cons.IH [OF ys] Inr xs show ?thesis
      by simp
  qed
qed

lemma collect_Inr_iff: "collect rs = Inr xs \<longleftrightarrow> rs = map Inr xs"
  using collect_Inr_D collect_map_Inr by blast

lemma collect_Inl: "collect rs = Inl e \<Longrightarrow> Inl e \<in> set rs"
proof (induction rs)
  case Nil
  then show ?case by simp
next
  case (Cons r rs)
  then show ?case
    by (cases r) (auto split: sum.splits)
qed

lemma collect_fails: "r \<in> set rs \<Longrightarrow> isl r \<Longrightarrow> \<exists>e. collect rs = Inl e"
proof (induction rs)
  case Nil
  then show ?case by simp
next
  case (Cons a rs)
  then show ?case
    by (cases a) (auto split: sum.splits)
qed

lemma gather_Inr_iff: "gather schedule rs = Inr xs \<longleftrightarrow> rs = map Inr xs"
proof
  assume g: "gather schedule rs = Inr xs"
  then have "collect rs = Inr xs"
    by (auto simp: gather_def split: option.splits)
  then show "rs = map Inr xs"
    by (simp add: collect_Inr_iff)
next
  assume r: "rs = map Inr xs"
  have "find (\<lambda>i. i < length rs \<and> isl (rs ! i)) schedule = None"
    by (simp add: find_None_iff r)
  with r show "gather schedule rs = Inr xs"
    by (simp add: gather_def collect_Inr_iff)
qed

lemma gather_fails:
  assumes "r \<in> set rs" "isl r"
  shows "\<exists>e. gather schedule rs = Inl e \<and> Inl e \<in> set rs"
proof (cases "find (\<lambda>i. i < length rs \<and> isl (rs ! i)) schedule")
  case None
  from collect_fails [OF assms] obtain e where e: "collect rs = Inl e"
    by blast
  with None collect_Inl [OF e] show ?thesis
    by (simp add: gather_def)
next
  case (Some i)
  then have i: "i < length rs" "isl (rs ! i)"
    by (auto simp: find_Some_iff)
  then have "Inl (projl (rs ! i)) = rs ! i"
    by simp
  with i have "Inl (projl (rs ! i)) \<in> set rs"
    by (metis nth_mem)
  with Some show ?thesis
    by (simp add: gather_def)
qed

lemma fetch_Inr_iff:
  "fetch_gmail_data_async P R schedule1 schedule2 = Inr res \<longleftrightarrow>
     (\<exists>l p ids details em.
        phase1 R = [Inr l, Inr p, Inr (JArr ids)] \<and>
        phase2 R ids = map Inr details \<and>
        map (parse_message P) details = map Inr em \<and>
        res = \<lparr> labels = l, profile = p, emails = em \<rparr>)"
proof
  assume f: "fetch_gmail_data_async P R schedule1 schedule2 = Inr res"
  then obtain xs where g1: "gather schedule1 (phase1 R) = Inr xs"
    by (cases "gather schedule1 (phase1 R)") (auto simp: fetch_gmail_data_async_def)
  then have p1: "phase1 R = map Inr xs"
    by (simp add: gather_Inr_iff)
  then have "length xs = 3"
    by (metis length_map phase1_def length_Cons list.size(3) numeral_3_eq_3)
  then obtain l p m where xs: "xs = [l, p, m]"
    by (auto simp: numeral_3_eq_3 length_Suc_conv)
  from p1 xs obtain ids where m: "m = JArr ids"
    by (cases "get_message_list R 10") (auto simp: phase1_def)
  from f g1 xs m obtain details where g2: "gather schedule2 (phase2 R ids) = Inr details"
    by (cases "gather schedule2 (phase2 R ids)") (auto simp: fetch_gmail_data_async_def)
  from f g1 xs m g2 obtain em where c: "collect (map (parse_message P) details) = Inr em"
    and r: "res = \<lparr> labels = l, profile = p, emails = em \<rparr>"
    by (cases "collect (map (parse_message P) details)") (auto simp: fetch_gmail_data_async_def)
  from p1 xs m g2 c r show "\<exists>l p ids details em.
        phase1 R = [Inr l, Inr p, Inr (JArr ids)] \<and>
        phase2 R ids = map Inr details \<and>
        map (parse_message P) details = map Inr em \<and>
        res = \<lparr> labels = l, profile = p, emails = em \<rparr>"
    by (auto simp: gather_Inr_iff collect_Inr_iff)
next
  assume "\<exists>l p ids details em.
        phase1 R = [Inr l, Inr p, Inr (JArr ids)] \<and>
        phase2 R ids = map Inr details \<and>
        map (parse_message P) details = map Inr em \<and>
        res = \<lparr> labels = l, profile = p, emails = em \<rparr>"
  then obtain l p ids details em where
    h: "phase1 R = map Inr [l, p, JArr ids]" "phase2 R ids = map Inr details"
       "map (parse_message P) details = map Inr em" "res = \<lparr> labels = l, profile = p, emails = em \<rparr>"
    by auto
  from h(1) have g1: "gather schedule1 (phase1 R) = Inr [l, p, JArr ids]"
    by (simp only: gather_Inr_iff)
  from h(2) have g2: "gather schedule2 (phase2 R ids) = Inr details"
    by (simp only: gather_Inr_iff)
  from h(3) have c: "collect (map (parse_message P) details) = Inr em"
    by (simp only: collect_Inr_iff)
  from g1 g2 c h(4) show "fetch_gmail_data_async P R schedule1 schedule2 = Inr res"
    by (simp add: fetch_gmail_data_async_def)
qed


lemma isl_wrap: "isl (map_sum id JArr r) = isl r"
  by (cases r) simp_all

lemma map_eq_list_all2: "map f xs = map g ys \<Longrightarrow> list_all2 (\<lambda>x y. f x = g y) xs ys"
proof (induction xs arbitrary: ys)
  case Nil
  then show ?case by simp
next
  case (Cons x xs)
  then show ?case by (cases ys) auto
qed

lemma list_all2_compose:
  "list_all2 A xs ys \<Longrightarrow> list_all2 B ys zs \<Longrightarrow> list_all2 (\<lambda>x z. \<exists>y. A x y \<and> B y z) xs zs"
proof (induction xs ys arbitrary: zs rule: list_all2_induct)
  case Nil
  then show ?case by simp
next
  case (Cons x xs y ys)
  then show ?case by (cases zs) auto
qed

lemma request_fails_task_fails:
  "isl (make_request (labels_reply R)) \<Longrightarrow> isl (get_labels R)"
  "isl (make_request (profile_reply R)) \<Longrightarrow> isl (get_profile R)"
  "isl (make_request (messages_reply R n)) \<Longrightarrow> isl (get_message_list R n)"
  by (auto simp: get_labels_def get_profile_def get_message_list_def split: sum.splits)

lemma fetch_phase1_fails:
  assumes "r \<in> set (phase1 R)" "isl r"
  shows "\<exists>e. fetch_gmail_data_async P R schedule1 schedule2 = Inl e \<and> Inl e \<in> set (phase1 R)"
proof -
  from gather_fails [OF assms] obtain e where
    "gather schedule1 (phase1 R) = Inl e" "Inl e \<in> set (phase1 R)"
    by blast
  then show ?thesis
    by (simp add: fetch_gmail_data_async_def)
qed

lemma fetch_phase2_fails:
  assumes p1: "phase1 R = [Inr l, Inr p, Inr (JArr ids)]"
    and r: "r \<in> set (phase2 R ids)" "isl r"
  shows "\<exists>e. fetch_gmail_data_async P R schedule1 schedule2 = Inl e \<and> Inl e \<in> set (phase2 R ids)"
proof -
  from p1 have "phase1 R = map Inr [l, p, JArr ids]"
    by simp
  then have g1: "gather schedule1 (phase1 R) = Inr [l, p, JArr ids]"
    by (simp only: gather_Inr_iff)
  from gather_fails [OF r] obtain e where
    e: "gather schedule2 (phase2 R ids) = Inl e" "Inl e \<in> set (phase2 R ids)"
    by blast
  with g1 show ?thesis
    by (simp add: fetch_gmail_data_async_def)
qed

text \<open>
  C3. Whatever the order of completion: when one of the three requests of the first phase
  fails, the orchestrator fails with the error of a failed task of that phase; when the
  first phase succeeds and a request for a message fails, it fails with the error of a
  failed task of the second phase; when exactly one of those requests fails, it fails
  with that request's error. No result is returned in any of these cases.
\<close>
theorem request_failure_aborts:
  "(isl (make_request (labels_reply R)) \<or> isl (make_request (profile_reply R)) \<or>
    isl (make_request (messages_reply R 10)) \<longrightarrow>
      (\<exists>e. fetch_gmail_data_async P R schedule1 schedule2 = Inl e \<and> Inl e \<in> set (phase1 R))) \<and>
   (\<forall>l p ids. phase1 R = [Inr l, Inr p, Inr (JArr ids)] \<and>
        list_ex (\<lambda>i. isl (make_request (message_reply R i))) ids \<longrightarrow>
      (\<exists>e. fetch_gmail_data_async P R schedule1 schedule2 = Inl e \<and>
           Inl e \<in> set (phase2 R ids))) \<and>
   (\<forall>l p ids k e. phase1 R = [Inr l, Inr p, Inr (JArr ids)] \<and> k < length ids \<and>
        make_request (message_reply R (ids ! k)) = Inl e \<and>
        list_all (\<lambda>j. j = k \<or> \<not> isl (make_request (message_reply R (ids ! j)))) [0..<length ids]
      \<longrightarrow> fetch_gmail_data_async P R schedule1 schedule2 = Inl e)"
proof (intro conjI allI impI)
  assume "isl (make_request (labels_reply R)) \<or> isl (make_request (profile_reply R)) \<or>
    isl (make_request (messages_reply R 10))"
  then have "isl (get_labels R) \<or> isl (get_profile R) \<or> isl (get_message_list R 10)"
    using request_fails_task_fails by blast
  then have "isl (get_labels R) \<or> isl (get_profile R) \<or>
      isl (map_sum id JArr (get_message_list R 10))"
    by (simp only: isl_wrap)
  then obtain r where "r \<in> set (phase1 R)" "isl r"
    unfolding phase1_def by auto
  then show "\<exists>e. fetch_gmail_data_async P R schedule1 schedule2 = Inl e \<and> Inl e \<in> set (phase1 R)"
    by (rule fetch_phase1_fails)
next
  fix l p ids
  assume h: "phase1 R = [Inr l, Inr p, Inr (JArr ids)] \<and>
        list_ex (\<lambda>i. isl (make_request (message_reply R i))) ids"
  then obtain i where "i \<in> set ids" "isl (get_message_details R i)"
    by (auto simp: list_ex_iff get_message_details_def)
  then have "get_message_details R i \<in> set (phase2 R ids)"
    by (simp add: phase2_def)
  with h \<open>isl (get_message_details R i)\<close>
  show "\<exists>e. fetch_gmail_data_async P R schedule1 schedule2 = Inl e \<and> Inl e \<in> set (phase2 R ids)"
    by (blast intro: fetch_phase2_fails)
next
  fix l p ids k e
  assume h: "phase1 R = [Inr l, Inr p, Inr (JArr ids)] \<and> k < length ids \<and>
        make_request (message_reply R (ids ! k)) = Inl e \<and>
        list_all (\<lambda>j. j = k \<or> \<not> isl (make_request (message_reply R (ids ! j)))) [0..<length ids]"
  then have f: "get_message_details R (ids ! k) = Inl e" and k: "k < length ids"
    by (simp_all add: get_message_details_def)
  from k have "ids ! k \<in> set ids"
    by simp
  then have "get_message_details R (ids ! k) \<in> get_message_details R ` set ids"
    by (rule imageI)
  with f have "get_message_details R (ids ! k) \<in> set (phase2 R ids)" "isl (get_message_details R (ids ! k))"
    by (simp_all add: phase2_def)
  with h obtain e' where e': "fetch_gmail_data_async P R schedule1 schedule2 = Inl e'"
      "Inl e' \<in> set (phase2 R ids)"
    by (blast dest: fetch_phase2_fails)
  from e'(2) obtain j where j: "j < length ids" "get_message_details R (ids ! j) = Inl e'"
    by (auto simp: phase2_def in_set_conv_nth)
  with h have "j = k"
    by (auto simp: list_all_iff get_message_details_def)
  with j f e'(1) show "fetch_gmail_data_async P R schedule1 schedule2 = Inl e"
    by simp
qed

text \<open>
  C4. The \<open>emails\<close> of a returned result are, position by position, the records parsed
  from the details fetched for the identifiers of the message list, in the order of that
  list; the result is the same for every order of completion of both phases.
\<close>
theorem emails_in_id_order:
  "fetch_gmail_data_async P R schedule1 schedule2 = Inr res \<Longrightarrow>
     (\<exists>ids. get_message_list R 10 = Inr ids \<and>
        list_all2 (\<lambda>i rec. \<exists>d. get_message_details R i = Inr d \<and> parse_message P d = Inr rec)
          ids (emails res)) \<and>
     (\<forall>schedule1' schedule2'. fetch_gmail_data_async P R schedule1' schedule2' = Inr res)"
proof
  assume f: "fetch_gmail_data_async P R schedule1 schedule2 = Inr res"
  then obtain l p ids details em where
    h: "phase1 R = [Inr l, Inr p, Inr (JArr ids)]" "phase2 R ids = map Inr details"
       "map (parse_message P) details = map Inr em" "res = \<lparr> labels = l, profile = p, emails = em \<rparr>"
    by (auto simp: fetch_Inr_iff)
  from h(1) have ids: "get_message_list R 10 = Inr ids"
    by (cases "get_message_list R 10") (auto simp: phase1_def)
  from h(2) have 1: "list_all2 (\<lambda>i d. get_message_details R i = Inr d) ids details"
    unfolding phase2_def by (rule map_eq_list_all2)
  from h(3) have 2: "list_all2 (\<lambda>d rec. parse_message P d = Inr rec) details em"
    by (rule map_eq_list_all2)
  from 1 2 have "list_all2 (\<lambda>i rec. \<exists>d. get_message_details R i = Inr d \<and> parse_message P d = Inr rec) ids em"
    by (rule list_all2_compose)
  with ids h(4) show "\<exists>ids. get_message_list R 10 = Inr ids \<and>
        list_all2 (\<lambda>i rec. \<exists>d. get_message_details R i = Inr d \<and> parse_message P d = Inr rec)
          ids (emails res)"
    by auto
next
  assume f: "fetch_gmail_data_async P R schedule1 schedule2 = Inr res"
  show "\<forall>schedule1' schedule2'. fetch_gmail_data_async P R schedule1' schedule2' = Inr res"
    using f by (simp only: fetch_Inr_iff) simp
qed


theorem request_failure_aborts_witness:
  "phase1 (example_remote [JStr (ascii ''m2'')]) =
     [Inr (JArr []), Inr (JObj [(ascii ''emailAddress'', JStr (ascii ''a@b.com''))]),
      Inr (JArr [JStr (ascii ''m1''), JStr (ascii ''m2''), JStr (ascii ''m3'')])] \<and>
   phase2 (example_remote [JStr (ascii ''m2'')])
       [JStr (ascii ''m1''), JStr (ascii ''m2''), JStr (ascii ''m3'')] =
     [Inr (JObj [(ascii ''id'', JStr (ascii ''m1''))]), Inl (HTTPStatusError 500),
      Inr (JObj [(ascii ''id'', JStr (ascii ''m3''))])] \<and>
   fetch_gmail_data_async utc_platform (example_remote [JStr (ascii ''m2'')]) [2, 0, 1] [2, 0, 1]
     = Inl (HTTPStatusError 500) \<and>
   fetch_gmail_data_async utc_platform (example_remote [JStr (ascii ''m2'')]) [0, 1, 2] [1, 0, 2]
     = Inl (HTTPStatusError 500)"
proof -
  let ?R = "example_remote [JStr (ascii ''m2'')]"
  let ?ids = "[JStr (ascii ''m1''), JStr (ascii ''m2''), JStr (ascii ''m3'')]"
  let ?l = "JArr []" and ?p = "JObj [(ascii ''emailAddress'', JStr (ascii ''a@b.com''))]"
  have p1: "phase1 ?R = [Inr ?l, Inr ?p, Inr (JArr ?ids)]"
    by code_simp
  have p2: "phase2 ?R ?ids =
     [Inr (JObj [(ascii ''id'', JStr (ascii ''m1''))]), Inl (HTTPStatusError 500),
      Inr (JObj [(ascii ''id'', JStr (ascii ''m3''))])]"
    by code_simp
  have k: "1 < length ?ids"
    by simp
  have f: "make_request (message_reply ?R (?ids ! 1)) = Inl (HTTPStatusError 500)"
    by code_simp
  have o: "list_all (\<lambda>j. j = 1 \<or> \<not> isl (make_request (message_reply ?R (?ids ! j)))) [0..<length ?ids]"
    by code_simp
  from p1 k f o have c: "phase1 ?R = [Inr ?l, Inr ?p, Inr (JArr ?ids)] \<and> 1 < length ?ids \<and>
        make_request (message_reply ?R (?ids ! 1)) = Inl (HTTPStatusError 500) \<and>
        list_all (\<lambda>j. j = 1 \<or> \<not> isl (make_request (message_reply ?R (?ids ! j)))) [0..<length ?ids]"
    by (intro conjI)
  have a: "fetch_gmail_data_async utc_platform ?R s1 s2 = Inl (HTTPStatusError 500)" for s1 s2
    by (rule request_failure_aborts [where R = ?R and P = utc_platform, THEN conjunct2,
          THEN conjunct2, rule_format, of ?l ?p ?ids 1 "HTTPStatusError 500", OF c])
  from p1 p2 a [of "[2, 0, 1]" "[2, 0, 1]"] a [of "[0, 1, 2]" "[1, 0, 2]"] show ?thesis
    by (intro conjI)
qed

theorem emails_in_id_order_witness:
  "fetch_gmail_data_async utc_platform (example_remote []) [2, 0, 1] [1, 2, 0] =
     Inr \<lparr> labels = JArr [], profile = JObj [(ascii ''emailAddress'', JStr (ascii ''a@b.com''))],
           emails = [id_record ''m1'', id_record ''m2'', id_record ''m3''] \<rparr> \<and>
   get_message_list (example_remote []) 10 =
     Inr [JStr (ascii ''m1''), JStr (ascii ''m2''), JStr (ascii ''m3'')]"
proof -
  let ?R = "example_remote []"
  let ?res = "\<lparr> labels = JArr [], profile = JObj [(ascii ''emailAddress'', JStr (ascii ''a@b.com''))],
           emails = [id_record ''m1'', id_record ''m2'', id_record ''m3''] \<rparr>"
  have e: "fetch_gmail_data_async utc_platform ?R [0, 1, 2] [0, 1, 2] = Inr ?res"
    by code_simp
  have i: "get_message_list ?R 10 = Inr [JStr (ascii ''m1''), JStr (ascii ''m2''), JStr (ascii ''m3'')]"
    by code_simp
  from emails_in_id_order [OF e]
  have "fetch_gmail_data_async utc_platform ?R [2, 0, 1] [1, 2, 0] = Inr ?res"
    by blast
  with i show ?thesis
    by (intro conjI)
qed

section \<open>The base64url round trip\<close>

subsection \<open>Decoding an encoding\<close>

lemma b64url_char_props:
  "v < 64 \<Longrightarrow> b64_value (urlsafe_translate (b64url_char v)) = Some v"
  "b64url_char v \<noteq> 61"
  "urlsafe_translate (b64url_char v) \<noteq> 61"
  "b64url_char v < 128"
  by (auto simp: b64url_char_def urlsafe_translate_def b64_value_def)

lemma a2b_step:
  "v < 64 \<Longrightarrow>
   a2b_loop (urlsafe_translate (b64url_char v) # cs) quad_pos leftchar pads out =
     (if quad_pos = 0 then a2b_loop cs 1 v 0 out
      else if quad_pos = 1 then
        a2b_loop cs 2 (v mod 16) 0 (out @ [(leftchar * 4 + v div 16) mod 256])
      else if quad_pos = 2 then
        a2b_loop cs 3 (v mod 4) 0 (out @ [(leftchar * 16 + v div 4) mod 256])
      else a2b_loop cs 0 0 0 (out @ [(leftchar * 64 + v) mod 256]))"
  by (simp add: b64url_char_props)

lemma sextets:
  fixes a b c :: nat
  assumes "a < 256" "b < 256" "c < 256"
  shows "a div 4 < 64" "a mod 4 * 16 < 64" "a mod 4 * 16 + b div 16 < 64" "b mod 16 * 4 < 64"
    "b mod 16 * 4 + c div 64 < 64" "c mod 64 < 64"
  using assms by arith+

lemma sextet_byte1:
  fixes a b c :: nat
  assumes "a < 256" 
  shows "(a div 4 * 4 + a mod 4 * 16 div 16) mod 256 = a"
  using assms by simp
lemma sextet_byte2:
  fixes a b c :: nat
  assumes "a < 256" "b < 256"
  shows "(a div 4 * 4 + (a mod 4 * 16 + b div 16) div 16) mod 256 = a"
proof -
  from assms have "b div 16 div 16 = 0" by (simp add: div_mult2_eq [symmetric])
  then have "(a mod 4 * 16 + b div 16) div 16 = a mod 4" by simp
  with assms show ?thesis by simp
qed
lemma sextet_byte3:
  fixes a b c :: nat
  assumes "a < 256" "b < 256"
  shows "((a mod 4 * 16 + b div 16) mod 16 * 16 + b mod 16 * 4 div 4) mod 256 = b"
proof -
  from assms have l: "b div 16 < 16" by simp
  then have "(a mod 4 * 16 + b div 16) mod 16 = b div 16" by simp
  with assms show ?thesis by simp
qed
lemma sextet_byte4:
  fixes a b c :: nat
  assumes "b < 256" "c < 256"
  shows "((a mod 4 * 16 + b div 16) mod 16 * 16 + (b mod 16 * 4 + c div 64) div 4) mod 256 = b"
proof -
  from assms have l: "b div 16 < 16" by simp
  then have 1: "(a mod 4 * 16 + b div 16) mod 16 = b div 16" by simp
  from assms have "c div 64 div 4 = 0" by (simp add: div_mult2_eq [symmetric])
  then have 2: "(b mod 16 * 4 + c div 64) div 4 = b mod 16" by simp
  from assms show ?thesis by (simp add: 1 2)
qed
lemma sextet_byte5:
  fixes a b c :: nat
  assumes "b < 256" "c < 256"
  shows "((b mod 16 * 4 + c div 64) mod 4 * 64 + c mod 64) mod 256 = c"
proof -
  from assms have l: "c div 64 < 4" by simp
  then have 1: "(b mod 16 * 4 + c div 64) mod 4 = c div 64" by simp
  from assms show ?thesis by (simp add: 1)
qed

lemma byte_parts:
  fixes b :: nat
  assumes "b < 256"
  shows "b div 16 div 16 = 0" "b div 16 mod 16 = b div 16" "b div 64 div 4 = 0"
    "b div 64 mod 4 = b div 64"
  using assms by (simp_all add: div_mult2_eq [symmetric])

lemma a2b_padding:
  "a2b_loop [61, 61, 61] 0 l 0 out = Some out"
  "a2b_loop [61, 61, 61] 2 l 0 out = Some out"
  "a2b_loop [61, 61, 61] 3 l 0 out = Some out"
  by simp_all

lemma decode_unpadded:
  "list_all (\<lambda>b. b < 256) bs \<Longrightarrow>
     a2b_loop (map urlsafe_translate (b64_unpadded bs) @ [61, 61, 61]) 0 0 0 out = Some (out @ bs)"
proof (induction bs arbitrary: out rule: b64_unpadded.induct)
  case 1
  show ?case by (simp add: a2b_padding del: a2b_loop.simps)
next
  case (2 a)
  then have a: "a < 256" by simp
  show ?case
    by (simp add: a2b_step a2b_padding sextets [OF a a a] sextet_byte1 [OF a] a del: a2b_loop.simps)
next
  case (3 a b)
  then have a: "a < 256" and b: "b < 256" by simp_all
  show ?case
    by (simp add: a2b_step a2b_padding sextets [OF a b b] sextet_byte2 [OF a b] sextet_byte3 [OF a b] a b
        byte_parts [OF b] del: a2b_loop.simps)
next
  case (4 a b c rest)
  then have a: "a < 256" and b: "b < 256" and c: "c < 256" and r: "list_all (\<lambda>b. b < 256) rest"
    by simp_all
  show ?case
    by (simp add: a2b_step sextets [OF a b c] sextet_byte2 [OF a b] sextet_byte4 [OF b c] sextet_byte5 [OF b c] "4.IH" [OF r]
        a b c byte_parts [OF b] byte_parts [OF c] del: a2b_loop.simps)
qed


lemma strip_padding_append:
  "strip_padding (xs @ ys) =
     (if strip_padding ys = [] then strip_padding xs else xs @ strip_padding ys)"
proof (cases "\<forall>c \<in> set ys. c = 61")
  case True
  then have "dropWhile (\<lambda>c. c = 61) (rev ys @ rev xs) = dropWhile (\<lambda>c. c = 61) (rev xs)"
    by (simp add: dropWhile_append)
  moreover from True have "dropWhile (\<lambda>c. c = 61) (rev ys) = []"
    by simp
  ultimately show ?thesis
    by (simp add: strip_padding_def)
next
  case False
  then have 1: "dropWhile (\<lambda>c. c = 61) (rev ys @ rev xs) = dropWhile (\<lambda>c. c = 61) (rev ys) @ rev xs"
    by (auto simp: dropWhile_append)
  from 1 False show ?thesis
    by (auto simp: strip_padding_def)
qed

lemma strip_padding_simps:
  "strip_padding [] = []"
  "strip_padding [61] = []"
  "strip_padding [61, 61] = []"
  "c \<noteq> 61 \<Longrightarrow> strip_padding [c] = [c]"
  by (simp_all add: strip_padding_def)

lemma strip_padding_chars:
  "strip_padding (b64url_char v # cs) = b64url_char v # strip_padding cs"
  using strip_padding_append [of "[b64url_char v]" cs]
  by (simp add: strip_padding_simps b64url_char_props)

lemma strip_padding_encode: "strip_padding (urlsafe_b64encode bs) = b64_unpadded bs"
  by (induction bs rule: urlsafe_b64encode.induct)
     (simp_all add: strip_padding_chars strip_padding_simps)

lemma unpadded_ascii: "is_ascii (b64_unpadded bs)"
  by (induction bs rule: b64_unpadded.induct) (simp_all add: is_ascii_def b64url_char_props)

lemma decode_body_unpadded:
  assumes "list_all (\<lambda>b. b < 256) bs"
  shows "urlsafe_b64decode (b64_unpadded bs @ ascii ''==='') = Some bs"
proof -
  have a: "is_ascii (b64_unpadded bs @ [61, 61, 61])"
    using unpadded_ascii [of bs] by (simp add: is_ascii_def)
  have t: "map urlsafe_translate (b64_unpadded bs @ [61, 61, 61])
             = map urlsafe_translate (b64_unpadded bs) @ [61, 61, 61]"
    by (simp add: urlsafe_translate_def)
  have e: "ascii ''==='' = [61, 61, 61]"
    by (simp add: ascii_def)
  from decode_unpadded [OF assms, of "[]"] show ?thesis
    unfolding urlsafe_b64decode_def a2b_base64_def e
    by (simp only: a t if_True append_Nil)
qed

lemma a2b_padded_tail:
  "a2b_loop (61 # 61 # cs) 2 l 0 out = Some out"
  "a2b_loop (61 # cs) 3 l 0 out = Some out"
  by simp_all

lemma decode_encoded:
  assumes tl0: "\<And>out. a2b_loop rest0 0 0 0 out = Some out"
      and tl2: "\<And>l out. a2b_loop (61 # 61 # rest0) 2 l 0 out = Some out"
      and tl3: "\<And>l out. a2b_loop (61 # rest0) 3 l 0 out = Some out"
  shows "list_all (\<lambda>b. b < 256) bs \<Longrightarrow>
     a2b_loop (map urlsafe_translate (urlsafe_b64encode bs) @ rest0) 0 0 0 out = Some (out @ bs)"
proof (induction bs arbitrary: out rule: urlsafe_b64encode.induct)
  case 1
  show ?case by (simp add: tl0 del: a2b_loop.simps)
next
  case (2 a)
  then have a: "a < 256" by simp
  have t: "urlsafe_translate 61 = 61" by (simp add: urlsafe_translate_def)
  show ?case
    by (simp add: a2b_step tl2 t sextets [OF a a a] sextet_byte1 [OF a] a del: a2b_loop.simps)
next
  case (3 a b)
  then have a: "a < 256" and b: "b < 256" by simp_all
  have t: "urlsafe_translate 61 = 61" by (simp add: urlsafe_translate_def)
  show ?case
    by (simp add: a2b_step tl3 t sextets [OF a b b] sextet_byte2 [OF a b] sextet_byte3 [OF a b] a b
        byte_parts [OF b] del: a2b_loop.simps)
next
  case (4 a b c rest)
  then have a: "a < 256" and b: "b < 256" and c: "c < 256" and r: "list_all (\<lambda>b. b < 256) rest"
    by simp_all
  show ?case
    by (simp add: a2b_step sextets [OF a b c] sextet_byte2 [OF a b] sextet_byte4 [OF b c] sextet_byte5 [OF b c] "4.IH" [OF r]
        a b c byte_parts [OF b] byte_parts [OF c] del: a2b_loop.simps)
qed

lemma padded_ascii: "is_ascii (urlsafe_b64encode bs)"
  by (induction bs rule: urlsafe_b64encode.induct) (simp_all add: is_ascii_def b64url_char_props)

lemma decode_padded:
  assumes "list_all (\<lambda>b. b < 256) bs"
  shows "urlsafe_b64decode (urlsafe_b64encode bs) = Some bs"
proof -
  have "a2b_loop (map urlsafe_translate (urlsafe_b64encode bs) @ []) 0 0 0 [] = Some ([] @ bs)"
    using assms by (intro decode_encoded) simp_all
  then show ?thesis
    unfolding urlsafe_b64decode_def a2b_base64_def
    by (simp add: padded_ascii)
qed

lemma decode_body_padded:
  assumes "list_all (\<lambda>b. b < 256) bs"
  shows "urlsafe_b64decode (urlsafe_b64encode bs @ ascii ''==='') = Some bs"
proof -
  have a: "is_ascii (urlsafe_b64encode bs @ [61, 61, 61])"
    using padded_ascii [of bs] by (simp add: is_ascii_def)
  have t: "map urlsafe_translate (urlsafe_b64encode bs @ [61, 61, 61])
             = map urlsafe_translate (urlsafe_b64encode bs) @ [61, 61, 61]"
    by (simp add: urlsafe_translate_def)
  have e: "ascii ''==='' = [61, 61, 61]"
    by (simp add: ascii_def)
  have "a2b_loop (map urlsafe_translate (urlsafe_b64encode bs) @ [61, 61, 61]) 0 0 0 []
          = Some ([] @ bs)"
    using assms by (intro decode_encoded) simp_all
  then show ?thesis
    unfolding urlsafe_b64decode_def a2b_base64_def e
    by (simp only: a t if_True append_Nil)
qed

lemma pad_to_four_group: "pad_to_four (a # b # c # d # s) = a # b # c # d # pad_to_four s"
proof -
  have "Suc (Suc (Suc (Suc (length s)))) mod 4 = length s mod 4"
    by presburger
  then show ?thesis
    by (simp add: pad_to_four_def)
qed

lemma pad_to_four_unpadded: "pad_to_four (b64_unpadded bs) = urlsafe_b64encode bs"
proof (induction bs rule: b64_unpadded.induct)
  case 1
  show ?case by (simp add: pad_to_four_def)
next
  case (2 a)
  have "replicate 2 (61::nat) = [61, 61]"
    by (simp only: numeral_2_eq_2 replicate.simps)
  then show ?case by (simp add: pad_to_four_def)
next
  case (3 a b)
  show ?case by (simp add: pad_to_four_def)
next
  case (4 a b c rest)
  then show ?case by (simp add: pad_to_four_group)
qed

lemma extract_plain_part_any:
  "decode_body (JStr data) = Some t \<Longrightarrow> extract_text_from_payload (plain_part data) = Inr t"
proof (cases "data = []")
  case True
  assume "decode_body (JStr data) = Some t"
  with True have "t = []"
    by (simp add: urlsafe_b64decode_def a2b_base64_def is_ascii_def urlsafe_translate_def ascii_def)
  with True show ?thesis
    by (simp add: extract_text_from_payload_def simple_text_def plain_part_def dict_get_def ascii_def)
next
  case False
  assume "decode_body (JStr data) = Some t"
  with False show ?thesis
    by (rule extract_plain_part)
qed

subsection \<open>UTF-8\<close>

lemma utf8_one: "c < 128 \<Longrightarrow> utf8_decode (utf8_encode_char c @ bs) = map_option ((#) c) (utf8_decode bs)"
  by (simp add: utf8_encode_char_def)

lemma utf8_two:
  assumes "128 \<le> c" "c < 2048"
  shows "utf8_decode (utf8_encode_char c @ bs) = map_option ((#) c) (utf8_decode bs)"
proof -
  define x where "x = c div 64"
  define r where "r = c mod 64"
  have f: "c = x * 64 + r" "r < 64"
    by (simp_all add: x_def r_def)
  from f assms have b: "2 \<le> x" "x \<le> 31"
    by linarith+
  from assms have e: "utf8_encode_char c = [192 + x, 128 + r]"
    by (simp add: utf8_encode_char_def x_def r_def)
  from f b show ?thesis
    unfolding e by (simp add: is_cont_def)
qed

lemma utf8_three:
  assumes "2048 \<le> c" "c < 65536" "is_scalar c"
  shows "utf8_decode (utf8_encode_char c @ bs) = map_option ((#) c) (utf8_decode bs)"
proof -
  define x where "x = c div 64"
  define r where "r = c mod 64"
  define q where "q = x div 64"
  define m where "m = x mod 64"
  have f: "c = x * 64 + r" "r < 64" "x = q * 64 + m" "m < 64"
    by (simp_all add: x_def r_def q_def m_def)
  have q: "c div 4096 = q"
    by (simp add: q_def x_def div_mult2_eq [symmetric])
  from f assms(2) have b: "q \<le> 15"
    by linarith
  from f assms(1) have lo: "q = 0 \<longrightarrow> 32 \<le> m"
    by (intro impI) linarith
  from assms(3) have "c < 55296 \<or> 57344 \<le> c"
    by (auto simp: is_scalar_def)
  with f have hi: "q = 13 \<longrightarrow> m \<le> 31"
    by (intro impI) linarith
  from assms have e: "utf8_encode_char c = [224 + q, 128 + m, 128 + r]"
    by (simp add: utf8_encode_char_def q x_def [symmetric] m_def [symmetric] r_def [symmetric])
  from f have v: "q * 4096 + m * 64 + r = c"
    by linarith
  from f b lo hi v show ?thesis
    unfolding e by (simp add: is_cont_def)
qed

lemma utf8_four:
  assumes "65536 \<le> c" "c < 1114112"
  shows "utf8_decode (utf8_encode_char c @ bs) = map_option ((#) c) (utf8_decode bs)"
proof -
  define x where "x = c div 64"
  define r where "r = c mod 64"
  define y where "y = x div 64"
  define m where "m = x mod 64"
  define q where "q = y div 64"
  define n where "n = y mod 64"
  have f: "c = x * 64 + r" "r < 64" "x = y * 64 + m" "m < 64" "y = q * 64 + n" "n < 64"
    by (simp_all add: x_def r_def y_def m_def q_def n_def)
  have y: "c div 4096 = y"
    by (simp add: y_def x_def div_mult2_eq [symmetric])
  have q: "c div 262144 = q"
    by (simp add: q_def y_def x_def div_mult2_eq [symmetric])
  from f assms(2) have b: "q \<le> 4"
    by linarith
  from f assms(1) have lo: "q = 0 \<longrightarrow> 16 \<le> n"
    by (intro impI) linarith
  from f assms(2) have hi: "q = 4 \<longrightarrow> n \<le> 15"
    by (intro impI) linarith
  from assms have e: "utf8_encode_char c = [240 + q, 128 + n, 128 + m, 128 + r]"
    by (simp add: utf8_encode_char_def q y n_def [symmetric] x_def [symmetric] m_def [symmetric]
        r_def [symmetric])
  from f have v: "q * 262144 + n * 4096 + m * 64 + r = c"
    by linarith
  from f b lo hi v show ?thesis
    unfolding e by (simp add: is_cont_def)
qed

lemma utf8_char:
  "is_scalar c \<Longrightarrow> utf8_decode (utf8_encode_char c @ bs) = map_option ((#) c) (utf8_decode bs)"
proof -
  assume s: "is_scalar c"
  then have "c < 1114112"
    by (auto simp: is_scalar_def)
  then consider "c < 128" | "128 \<le> c" "c < 2048" | "2048 \<le> c" "c < 65536"
    | "65536 \<le> c" "c < 1114112"
    by linarith
  then show ?thesis
    using s by cases (simp_all add: utf8_one utf8_two utf8_three utf8_four)
qed

lemma utf8_round_trip:
  "list_all is_scalar cs \<Longrightarrow> utf8_decode (concat (map utf8_encode_char cs)) = Some cs"
  by (induction cs) (simp_all add: utf8_char del: utf8_decode.simps(2))

lemma utf8_bytes: "is_scalar c \<Longrightarrow> list_all (\<lambda>b. b < 256) (utf8_encode_char c)"
  by (auto simp: utf8_encode_char_def is_scalar_def)

lemma utf8_encode_bytes:
  "list_all is_scalar cs \<Longrightarrow> list_all (\<lambda>b. b < 256) (concat (map utf8_encode_char cs))"
  by (induction cs) (simp_all add: utf8_bytes)

subsection \<open>The round trip\<close>

text \<open>
  Claim C7. For every text that UTF-8 can encode (a string with no surrogate code point;
  \<open>text.encode('utf-8')\<close> raises on the others, so there is nothing to decode), the
  encoding exists, and the unpadded base64url string \<open>s\<close> of its UTF-8 bytes is decoded
  by the normalizer's decoder \<open>decode_body\<close> to the text itself; so a \<open>text/plain\<close>
  payload whose body data is \<open>s\<close> yields the text. The decoder appends \<open>===\<close>
  whatever the length; the decoding that pads to a multiple of four, \<open>padding_decode\<close>,
  gives the same text, and so does \<open>decode_body\<close> on the encoding that kept its padding.
\<close>

theorem base64url_round_trip:
  "list_all is_scalar cs \<Longrightarrow>
     (\<exists>s bs. utf8_encode cs = Some bs \<and> encode_unpadded cs = Some s \<and>
        s = strip_padding (urlsafe_b64encode bs) \<and>
        decode_body (JStr s) = Some cs \<and>
        extract_text_from_payload (plain_part s) = Inr cs \<and>
        padding_decode s = Some cs \<and>
        decode_body (JStr (urlsafe_b64encode bs)) = Some cs)"
proof -
  assume sc: "list_all is_scalar cs"
  define bs where "bs = concat (map utf8_encode_char cs)"
  define s where "s = strip_padding (urlsafe_b64encode bs)"
  from sc have u: "utf8_encode cs = Some bs"
    by (simp add: utf8_encode_def bs_def)
  then have e: "encode_unpadded cs = Some s"
    by (simp add: encode_unpadded_def s_def)
  from sc have bb: "list_all (\<lambda>b. b < 256) bs"
    unfolding bs_def by (rule utf8_encode_bytes)
  from sc have d: "utf8_decode bs = Some cs"
    unfolding bs_def by (rule utf8_round_trip)
  have s': "s = b64_unpadded bs"
    by (simp add: s_def strip_padding_encode)
  from decode_body_unpadded [OF bb] d have 1: "decode_body (JStr s) = Some cs"
    by (simp add: s')
  from decode_body_padded [OF bb] d have 2: "decode_body (JStr (urlsafe_b64encode bs)) = Some cs"
    by simp
  from 1 have 3: "extract_text_from_payload (plain_part s) = Inr cs"
    by (rule extract_plain_part_any)
  from decode_padded [OF bb] d have 4: "padding_decode s = Some cs"
    by (simp add: padding_decode_def s' pad_to_four_unpadded)
  from u e s_def 1 2 3 4 show ?thesis
    by blast
qed

theorem base64url_round_trip_witness:
  "list_all is_scalar [104, 233, 8364] \<and>
   encode_unpadded [104, 233, 8364] = Some (ascii ''aMOp4oKs'') \<and>
   decode_body (JStr (ascii ''aMOp4oKs'')) = Some [104, 233, 8364] \<and>
   extract_text_from_payload (plain_part (ascii ''aMOp4oKs'')) = Inr [104, 233, 8364] \<and>
   list_all is_scalar (ascii ''hi'') \<and>
   encode_unpadded (ascii ''hi'') = Some (ascii ''aGk'') \<and>
   urlsafe_b64encode (ascii ''hi'') = ascii ''aGk='' \<and>
   decode_body (JStr (ascii ''aGk'')) = Some (ascii ''hi'') \<and>
   padding_decode (ascii ''aGk'') = Some (ascii ''hi'') \<and>
   decode_body (JStr (ascii ''aGk='')) = Some (ascii ''hi'')"
proof -
  have s1: "list_all is_scalar [104, 233, 8364]"
    by (simp add: is_scalar_def)
  have u1: "utf8_encode [104, 233, 8364] = Some [104, 195, 169, 226, 130, 172]"
    by (simp add: utf8_encode_def utf8_encode_char_def is_scalar_def)
  have p1: "urlsafe_b64encode [104, 195, 169, 226, 130, 172] = ascii ''aMOp4oKs''"
    by (simp add: b64url_char_def ascii_def)
  have q1: "strip_padding (ascii ''aMOp4oKs'') = ascii ''aMOp4oKs''"
    by (simp add: strip_padding_def ascii_def)
  have e1: "encode_unpadded [104, 233, 8364] = Some (ascii ''aMOp4oKs'')"
    unfolding encode_unpadded_def by (simp only: u1 p1 q1 option.map)
  have a2: "ascii ''hi'' = [104, 105]"
    by (simp add: ascii_def)
  have s2: "list_all is_scalar (ascii ''hi'')"
    by (simp add: is_scalar_def a2)
  have u2: "utf8_encode (ascii ''hi'') = Some (ascii ''hi'')"
    by (simp add: utf8_encode_def utf8_encode_char_def is_scalar_def a2)
  have p2: "urlsafe_b64encode (ascii ''hi'') = ascii ''aGk=''"
    by (simp add: b64url_char_def ascii_def)
  have q2: "strip_padding (ascii ''aGk='') = ascii ''aGk''"
    by (simp add: strip_padding_def ascii_def)
  have e2: "encode_unpadded (ascii ''hi'') = Some (ascii ''aGk'')"
    unfolding encode_unpadded_def by (simp only: u2 p2 q2 option.map)
  from base64url_round_trip [OF s1] obtain s bs
    where b1: "encode_unpadded [104, 233, 8364] = Some s"
      and d1: "decode_body (JStr s) = Some [104, 233, 8364]"
      and x1: "extract_text_from_payload (plain_part s) = Inr [104, 233, 8364]"
    by (elim exE conjE) (rule that)
  from b1 have n1: "s = ascii ''aMOp4oKs''"
    by (simp only: e1 option.inject)
  from base64url_round_trip [OF s2] obtain s' bs'
    where c2: "utf8_encode (ascii ''hi'') = Some bs'"
      and b2: "encode_unpadded (ascii ''hi'') = Some s'"
      and d2: "decode_body (JStr s') = Some (ascii ''hi'')"
      and f2: "padding_decode s' = Some (ascii ''hi'')"
      and g2: "decode_body (JStr (urlsafe_b64encode bs')) = Some (ascii ''hi'')"
    by (elim exE conjE) (rule that)
  from b2 have n2: "s' = ascii ''aGk''"
    by (simp only: e2 option.inject)
  from c2 have m2: "bs' = ascii ''hi''"
    by (simp only: u2 option.inject)
  note r1 = d1 [unfolded n1] x1 [unfolded n1]
  note r2 = d2 [unfolded n2] f2 [unfolded n2] g2 [unfolded m2 p2]
  from s1 e1 r1 s2 e2 p2 r2 show ?thesis
    by (intro conjI)
qed

end
